theory Spec2Isabelle
  imports Main "HOL-Library.Sublist"
begin

section \<open>Python values\<close>

text \<open>
  A Python \<open>str\<close> is a sequence of Unicode code points, so it is a list of naturals here;
  \<open>u ''abc''\<close> is the \<open>str\<close> of an ASCII literal.  Slices, \<open>find\<close> and the length
  limits of \<open>agent.py\<close> count code points, as the lists do.
\<close>

type_synonym ustr = "nat list"

abbreviation u :: "string \<Rightarrow> ustr" where
  "u s \<equiv> map of_char s"

text \<open>
  The exceptions that occur in \<open>agent.py\<close> and in the library calls it makes.
  \<open>except Exception\<close> catches every one of them but \<open>KeyboardInterrupt\<close>, which
  derives from \<open>BaseException\<close> only.
\<close>

datatype exn =
    KeyboardInterrupt | EOFError | ValueError | IndexError | TypeError
  | AttributeError | KeyError | JSONDecodeError | UnicodeEncodeError
  | RecursionError | OSError | RequestException | LLMError

definition is_Exception :: "exn \<Rightarrow> bool" where
  "is_Exception e = (e \<noteq> KeyboardInterrupt)"

definition bind_exn :: "exn + 'a \<Rightarrow> ('a \<Rightarrow> exn + 'b) \<Rightarrow> exn + 'b" where
  "bind_exn m f = (case m of Inl e \<Rightarrow> Inl e | Inr x \<Rightarrow> f x)"

text \<open>
  What \<open>json.loads\<close> returns and \<open>json.dump\<close> accepts.  A \<open>dict\<close> keeps its keys in
  insertion order, each key once: an association list.  A float is kept as the text
  \<open>json.dump\<close> writes for it, which is the \<open>repr\<close> of its binary64 value, or \<open>NaN\<close>,
  \<open>Infinity\<close>, \<open>-Infinity\<close>: two floats with the same text are the same float.
\<close>

datatype json =
    JNull
  | JBool bool
  | JInt int
  | JFloat ustr
  | JStr ustr
  | JArr "json list"
  | JObj "(ustr \<times> json) list"

fun dict_get :: "(ustr \<times> json) list \<Rightarrow> ustr \<Rightarrow> json option" where
  "dict_get [] k = None"
| "dict_get ((k', v) # kvs) k = (if k' = k then Some v else dict_get kvs k)"

text \<open>\<open>d[k] = v\<close> on a dict: an existing key keeps its place, a new key goes last.\<close>

fun dict_set :: "(ustr \<times> json) list \<Rightarrow> ustr \<Rightarrow> json \<Rightarrow> (ustr \<times> json) list" where
  "dict_set [] k v = [(k, v)]"
| "dict_set ((k', v') # kvs) k v =
     (if k' = k then (k, v) # kvs else (k', v') # dict_set kvs k v)"

text \<open>
  \<open>x[k] = v\<close> with a \<open>str\<close> key on any decoded value: only a dict takes it, a list wants
  an integer index and the other values support no item assignment.
\<close>

fun setitem :: "json \<Rightarrow> ustr \<Rightarrow> json \<Rightarrow> exn + json" where
  "setitem (JObj kvs) k v = Inr (JObj (dict_set kvs k v))"
| "setitem _ k v = Inl TypeError"

fun keys :: "json \<Rightarrow> ustr list" where
  "keys (JObj kvs) = map fst kvs"
| "keys _ = []"

fun getitem :: "json \<Rightarrow> ustr \<Rightarrow> json option" where
  "getitem (JObj kvs) k = dict_get kvs k"
| "getitem _ k = None"

section \<open>String operations\<close>

text \<open>\<open>str.isspace\<close> on one code point, the set \<open>str.strip()\<close> removes.\<close>

definition isspace :: "nat \<Rightarrow> bool" where
  "isspace c =
     ((0x09 \<le> c \<and> c \<le> 0x0D) \<or> (0x1C \<le> c \<and> c \<le> 0x20) \<or> c = 0x85 \<or> c = 0xA0
      \<or> c = 0x1680 \<or> (0x2000 \<le> c \<and> c \<le> 0x200A) \<or> c = 0x2028 \<or> c = 0x2029
      \<or> c = 0x202F \<or> c = 0x205F \<or> c = 0x3000)"

definition strip :: "ustr \<Rightarrow> ustr" where
  "strip s = rev (dropWhile isspace (rev (dropWhile isspace s)))"

text \<open>\<open>sub in s\<close>.\<close>

fun contains :: "ustr \<Rightarrow> ustr \<Rightarrow> bool" where
  "contains sub [] = (sub = [])"
| "contains sub (c # cs) = (prefix sub (c # cs) \<or> contains sub cs)"

text \<open>\<open>s.find(sub)\<close> and \<open>s.rfind(sub)\<close>: the first and the last index, or \<open>-1\<close>.\<close>

fun find_at :: "ustr \<Rightarrow> ustr \<Rightarrow> nat \<Rightarrow> int" where
  "find_at sub [] i = (if sub = [] then int i else - 1)"
| "find_at sub (c # cs) i = (if prefix sub (c # cs) then int i else find_at sub cs (Suc i))"

definition find_py :: "ustr \<Rightarrow> ustr \<Rightarrow> int" where
  "find_py s sub = find_at sub s 0"

fun rfind_at :: "ustr \<Rightarrow> ustr \<Rightarrow> nat \<Rightarrow> int \<Rightarrow> int" where
  "rfind_at sub [] i found = (if sub = [] then int i else found)"
| "rfind_at sub (c # cs) i found =
     rfind_at sub cs (Suc i) (if prefix sub (c # cs) then int i else found)"

definition rfind_py :: "ustr \<Rightarrow> ustr \<Rightarrow> int" where
  "rfind_py s sub = rfind_at sub s 0 (- 1)"

text \<open>\<open>s[a:b]\<close>: a negative bound counts from the end, both are clamped to the string.\<close>

definition slice_py :: "ustr \<Rightarrow> int \<Rightarrow> int \<Rightarrow> ustr" where
  "slice_py s a b =
     (let n = int (length s);
          a' = (if a < 0 then max 0 (n + a) else min n a);
          b' = (if b < 0 then max 0 (n + b) else min n b)
      in take (nat (b' - a')) (drop (nat a') s))"

text \<open>
  \<open>s.split(sep)\<close>: the pieces between the occurrences of \<open>sep\<close>, found from the left
  and not overlapping; an empty separator raises \<open>ValueError\<close>.
\<close>

fun split_acc :: "ustr \<Rightarrow> ustr \<Rightarrow> ustr \<Rightarrow> ustr list" where
  "split_acc sep acc [] = [rev acc]"
| "split_acc sep acc (c # cs) =
     (if prefix sep (c # cs) then rev acc # split_acc sep [] (drop (length sep - 1) cs)
      else split_acc sep (c # acc) cs)"

definition split_py :: "ustr \<Rightarrow> ustr \<Rightarrow> exn + ustr list" where
  "split_py s sep = (if sep = [] then Inl ValueError else Inr (split_acc sep [] s))"

text \<open>\<open>xs[i]\<close>: a negative index counts from the end, an index outside raises.\<close>

definition index_py :: "'a list \<Rightarrow> int \<Rightarrow> exn + 'a" where
  "index_py xs i =
     (if 0 \<le> i \<and> i < int (length xs) then Inr (xs ! nat i)
      else if i < 0 \<and> - int (length xs) \<le> i then Inr (xs ! nat (int (length xs) + i))
      else Inl IndexError)"

text \<open>\<open>sep.join(xs)\<close> on strings.\<close>

fun join :: "ustr \<Rightarrow> ustr list \<Rightarrow> ustr" where
  "join sep [] = []"
| "join sep [x] = x"
| "join sep (x # y # ys) = x @ sep @ join sep (y # ys)"

section \<open>The world outside the program\<close>

text \<open>
  The console is the list of the \<open>print\<close> calls made.  A printed line is kept as its
  pieces: literal text, and the values and exceptions an f-string interpolates, which
  are not rendered.
\<close>

datatype piece = Lit ustr | Val json | Exc exn

type_synonym line = "piece list"

text \<open>What \<open>input()\<close> meets: a line of text or an interrupt; past the end, \<open>EOFError\<close>.\<close>

datatype input_event = Line ustr | Interrupt

datatype call = Search ustr | Ask ustr

text \<open>
  A file that was written to the end holds its text; one whose write broke off holds
  some proper beginning of it, which is not modelled further.
\<close>

datatype file_state = Written ustr | Broken

record world =
  stdin :: "input_event list"
  stdout :: "line list"
  files :: "ustr \<Rightarrow> file_state option"
  ticks :: nat
  net :: "call list"

text \<open>
  What the interpreter sets.  \<open>decode_depth\<close> is the number of containers the decoder of
  \<open>json\<close> may nest before \<open>RecursionError\<close>, which follows from the recursion limit and
  the depth of the call.  \<open>encoder_overflow d x\<close> says that the encoder, \<open>d\<close> containers
  deep, runs out of frames when it comes to \<open>x\<close>.  \<open>max_str_digits\<close> is the limit on the
  digits of an integer converted from or to text, \<open>0\<close> for none.  \<open>float_repr s\<close> is the
  text \<open>json.dump\<close> writes for the float that the numeral \<open>s\<close> denotes: \<open>repr(float(s))\<close>,
  or \<open>Infinity\<close>, \<open>-Infinity\<close> beyond the range of binary64.
\<close>

record interpreter =
  decode_depth :: nat
  encoder_overflow :: "nat \<Rightarrow> json \<Rightarrow> bool"
  max_str_digits :: nat
  float_repr :: "ustr \<Rightarrow> ustr"

text \<open>
  What the operating system does when a file of a name is opened for writing and a text
  written to it: it stores the text, or \<open>open\<close> raises, or the write does.
\<close>

datatype os_outcome = Stored | OpenFails exn | WriteFails exn

text \<open>
  What the program is given: the \<open>GOOGLE_API_KEY\<close> variable, the readings of the
  clock (as \<open>isoformat()\<close> text, one for each call), the outcome of a DuckDuckGo request
  for a query (\<open>requests.get\<close> followed by \<open>response.json()\<close>), the outcome of the
  LLM call for a prompt, Unicode lower-casing, the interpreter and the file system.
\<close>

record env =
  api_key :: "ustr option"
  clock :: "nat \<Rightarrow> ustr"
  ddg :: "ustr \<Rightarrow> exn + json"
  llm :: "ustr \<Rightarrow> exn + ustr"
  lower :: "ustr \<Rightarrow> ustr"
  python :: interpreter
  disk :: "ustr \<Rightarrow> ustr \<Rightarrow> os_outcome"

definition print :: "line \<Rightarrow> world \<Rightarrow> world" where
  "print l w = w\<lparr>stdout := stdout w @ [l]\<rparr>"

definition now_isoformat :: "env \<Rightarrow> world \<Rightarrow> ustr \<times> world" where
  "now_isoformat e w = (clock e (ticks w), w\<lparr>ticks := Suc (ticks w)\<rparr>)"

section \<open>The default roadmap\<close>

definition round_entry :: "string \<Rightarrow> string list \<Rightarrow> json" where
  "round_entry ty topics =
     JObj [(u ''type'', JStr (u ty)), (u ''topics'', JArr (map (\<lambda>t. JStr (u t)) topics))]"

definition default_rounds :: "json list" where
  "default_rounds =
     [round_entry ''Technical Screening'' [''Data Structures'', ''Algorithms'', ''Problem Solving''],
      round_entry ''Coding Round'' [''System Design'', ''Object-Oriented Programming''],
      round_entry ''System Design'' [''Microservices'', ''Scalability'', ''Database Design''],
      round_entry ''Behavioral'' [''Teamwork'', ''Communication'', ''Experience'']]"

definition create_default_roadmap :: "env \<Rightarrow> ustr \<Rightarrow> ustr \<Rightarrow> world \<Rightarrow> json \<times> world" where
  "create_default_roadmap e company role w =
     (let (now, w') = now_isoformat e w in
      (JObj
        [(u ''company'', JStr company),
         (u ''role'', JStr role),
         (u ''rounds'', JArr default_rounds),
         (u ''difficulty'', JStr (u ''Medium'')),
         (u ''recommended_order'',
            JArr (map (\<lambda>t. JStr (u t))
              [''Data Structures'', ''Algorithms'', ''System Design'', ''Behavioral''])),
         (u ''evidence'',
            JObj [(u ''key_skills'',
                     JArr [JStr (u ''General Programming''), JStr (u ''Problem Solving'')]),
                  (u ''topic_count'', JInt 4)]),
         (u ''generated_at'', JStr now),
         (u ''version'', JStr (u ''1.0'')),
         (u ''note'', JStr (u ''Default roadmap - AI generation failed''))],
       w'))"

section \<open>Taking the fenced block\<close>

text \<open>\<open>cleaned.split(fence)[1].split("```")[0].strip()\<close>\<close>

definition fenced :: "ustr \<Rightarrow> ustr \<Rightarrow> exn + ustr" where
  "fenced cleaned fence =
     bind_exn (split_py cleaned fence) (\<lambda>parts.
     bind_exn (index_py parts 1) (\<lambda>inner.
     bind_exn (split_py inner (u ''```'')) (\<lambda>parts'.
     bind_exn (index_py parts' 0) (\<lambda>body. Inr (strip body)))))"

text \<open>Lines 105 to 108 of \<open>extract_json_from_text\<close>, on the stripped text.\<close>

definition code_block :: "ustr \<Rightarrow> exn + ustr" where
  "code_block cleaned =
     (if contains (u ''```json'') cleaned then fenced cleaned (u ''```json'')
      else if contains (u ''```'') cleaned then fenced cleaned (u ''```'')
      else Inr cleaned)"

section \<open>Decoding JSON\<close>

text \<open>
  \<open>json.loads\<close> on a \<open>str\<close>: the texts CPython's decoder accepts and the values it
  gives for them, read here as tokens first and the nesting after, both from left to
  right, so that the first thing wrong in the text decides how the call fails:
  \<open>JSONDecodeError\<close> for a text that is not JSON, \<open>RecursionError\<close> for a container the
  interpreter cannot nest any deeper, \<open>ValueError\<close> for an integer of more digits than
  the interpreter converts.
\<close>

datatype token =
    TLBrace | TRBrace | TLBrack | TRBrack | TColon | TComma
  | TString ustr | TInt ustr | TFloat ustr | TNaN | TInfinity | TNegInfinity
  | TTrue | TFalse | TNull | TBad

definition hex_val :: "nat \<Rightarrow> nat option" where
  "hex_val c =
     (if 0x30 \<le> c \<and> c \<le> 0x39 then Some (c - 0x30)
      else if 0x61 \<le> c \<and> c \<le> 0x66 then Some (c - 0x57)
      else if 0x41 \<le> c \<and> c \<le> 0x46 then Some (c - 0x37)
      else None)"

text \<open>The four hexadecimal digits of a \<open>\uXXXX\<close> escape.\<close>

fun hex4 :: "ustr \<Rightarrow> nat option" where
  "hex4 (a # b # c # d # r) =
     (case hex_val a of None \<Rightarrow> None | Some x \<Rightarrow>
      case hex_val b of None \<Rightarrow> None | Some y \<Rightarrow>
      case hex_val c of None \<Rightarrow> None | Some z \<Rightarrow>
      case hex_val d of None \<Rightarrow> None | Some t \<Rightarrow>
        Some (((x * 16 + y) * 16 + z) * 16 + t))"
| "hex4 _ = None"

definition unescape :: "nat \<Rightarrow> nat option" where
  "unescape c =
     (if c = 0x22 \<or> c = 0x5C \<or> c = 0x2F then Some c
      else if c = 0x62 then Some 0x08
      else if c = 0x66 then Some 0x0C
      else if c = 0x6E then Some 0x0A
      else if c = 0x72 then Some 0x0D
      else if c = 0x74 then Some 0x09
      else None)"

definition high_surrogate :: "nat \<Rightarrow> bool" where
  "high_surrogate c = (0xD800 \<le> c \<and> c \<le> 0xDBFF)"

definition low_surrogate :: "nat \<Rightarrow> bool" where
  "low_surrogate c = (0xDC00 \<le> c \<and> c \<le> 0xDFFF)"

definition join_surrogates :: "nat \<Rightarrow> nat \<Rightarrow> nat" where
  "join_surrogates hi lo = 0x10000 + (hi - 0xD800) * 0x400 + (lo - 0xDC00)"

definition consc :: "nat \<Rightarrow> (ustr \<times> ustr) option \<Rightarrow> (ustr \<times> ustr) option" where
  "consc c m = (case m of None \<Rightarrow> None | Some (s, r) \<Rightarrow> Some (c # s, r))"

text \<open>
  The body of a string, after its opening quote, in strict mode: the decoded text and
  what follows the closing quote.  A high surrogate escape directly followed by a low
  one is a single code point; any other surrogate escape stays as it is.
\<close>

fun scanstring :: "ustr \<Rightarrow> (ustr \<times> ustr) option" where
  "scanstring [] = None"
| "scanstring (c # cs) =
     (if c = 0x22 then Some ([], cs)
      else if c = 0x5C then
        (case cs of
           [] \<Rightarrow> None
         | e # r \<Rightarrow>
             if e = 0x75 then
               (case hex4 r of
                  None \<Rightarrow> None
                | Some hi \<Rightarrow>
                    if high_surrogate hi \<and> take 2 (drop 4 r) = [0x5C, 0x75] then
                      (case hex4 (drop 6 r) of
                         None \<Rightarrow> None
                       | Some lo \<Rightarrow>
                           if low_surrogate lo
                           then consc (join_surrogates hi lo) (scanstring (drop 10 r))
                           else consc hi (scanstring (drop 4 r)))
                    else consc hi (scanstring (drop 4 r)))
             else
               (case unescape e of
                  None \<Rightarrow> None
                | Some x \<Rightarrow> consc x (scanstring r)))
      else if c < 0x20 then None
      else consc c (scanstring cs))"

definition digit :: "nat \<Rightarrow> bool" where
  "digit c = (0x30 \<le> c \<and> c \<le> 0x39)"

text \<open>
  The number pattern of the decoder,
  \<open>(-?(?:0|[1-9][0-9]*))(\.[0-9]+)?([eE][-+]?[0-9]+)?\<close>, one group at a time: the
  text matched and the text left.
\<close>

definition match_int :: "ustr \<Rightarrow> (ustr \<times> ustr) option" where
  "match_int s =
     (let (sign, s1) = (case s of [] \<Rightarrow> ([], s) | c # r \<Rightarrow> if c = 0x2D then ([c], r) else ([], s))
      in case s1 of
           [] \<Rightarrow> None
         | d # r \<Rightarrow>
             if d = 0x30 then Some (sign @ [d], r)
             else if digit d then Some (sign @ d # takeWhile digit r, dropWhile digit r)
             else None)"

definition match_frac :: "ustr \<Rightarrow> ustr \<times> ustr" where
  "match_frac s =
     (case s of
        c # d # r \<Rightarrow>
          if c = 0x2E \<and> digit d then (c # d # takeWhile digit r, dropWhile digit r)
          else ([], s)
      | _ \<Rightarrow> ([], s))"

definition match_exp :: "ustr \<Rightarrow> ustr \<times> ustr" where
  "match_exp s =
     (case s of
        [] \<Rightarrow> ([], s)
      | c # r \<Rightarrow>
          if c = 0x65 \<or> c = 0x45 then
            (let (sign, r1) =
                   (case r of [] \<Rightarrow> ([], r)
                    | x # r' \<Rightarrow> if x = 0x2D \<or> x = 0x2B then ([x], r') else ([], r))
             in case r1 of
                  [] \<Rightarrow> ([], s)
                | d # r2 \<Rightarrow>
                    if digit d then (c # sign @ d # takeWhile digit r2, dropWhile digit r2)
                    else ([], s))
          else ([], s))"

definition nat_of_digits :: "ustr \<Rightarrow> nat" where
  "nat_of_digits ds = foldl (\<lambda>a d. 10 * a + (d - 0x30)) 0 ds"

text \<open>\<open>int(s)\<close> on the text the first group matched.\<close>

definition int_of_text :: "ustr \<Rightarrow> int" where
  "int_of_text s =
     (case s of
        [] \<Rightarrow> 0
      | c # r \<Rightarrow> if c = 0x2D then - int (nat_of_digits r) else int (nat_of_digits s))"

text \<open>
  A number, as the text the pattern matched: an integer when only the first group
  matched, a float otherwise.
\<close>

definition match_number :: "ustr \<Rightarrow> (token \<times> ustr) option" where
  "match_number s =
     (case match_int s of
        None \<Rightarrow> None
      | Some (i, r) \<Rightarrow>
          (let (f, r1) = match_frac r; (x, r2) = match_exp r1
           in if f = [] \<and> x = [] then Some (TInt i, r2)
              else Some (TFloat (i @ f @ x), r2)))"

lemma consc_Some: "consc c m = Some (s, r) \<Longrightarrow> \<exists>s'. m = Some (s', r)"
  by (auto simp: consc_def split: option.splits)

lemma scanstring_shorter: "scanstring cs = Some (s, r) \<Longrightarrow> length r < length cs"
proof (induction cs arbitrary: s r rule: scanstring.induct)
  case 1
  then show ?case by simp
next
  case (2 c cs)
  show ?case
  proof (cases "c = 0x22")
    case True
    with "2.prems" show ?thesis by simp
  next
    case False
    from "2.prems" False "2.IH" show ?thesis
      by (auto split: if_splits list.splits option.splits dest!: consc_Some)
        (fastforce+)?
  qed
qed

lemma match_int_shorter: "match_int s = Some (i, r) \<Longrightarrow> length r < length s"
  by (auto simp: match_int_def Let_def split: list.splits if_splits
      intro: le_imp_less_Suc length_dropWhile_le order.strict_trans2 less_SucI)

lemma match_frac_shorter: "match_frac s = (f, r) \<Longrightarrow> length r \<le> length s"
  by (auto simp: match_frac_def split: list.splits if_splits
      intro: le_SucI length_dropWhile_le)

lemma match_exp_shorter: "match_exp s = (x, r) \<Longrightarrow> length r \<le> length s"
  by (auto simp: match_exp_def Let_def split: list.splits if_splits
      intro: le_SucI length_dropWhile_le)

lemma match_number_shorter: "match_number s = Some (t, r) \<Longrightarrow> length r < length s"
  by (auto simp: match_number_def Let_def split: option.splits prod.splits if_splits
      dest!: match_int_shorter match_frac_shorter match_exp_shorter)

text \<open>
  The tokens of a text.  At the first place where no token starts the list ends with
  \<open>TBad\<close>, and what follows is not looked at.
\<close>

function lex :: "ustr \<Rightarrow> token list" where
  "lex [] = []"
| "lex (c # cs) =
     (if c = 0x20 \<or> c = 0x09 \<or> c = 0x0A \<or> c = 0x0D then lex cs
      else if c = 0x22 then
        (case scanstring cs of None \<Rightarrow> [TBad] | Some (s, r) \<Rightarrow> TString s # lex r)
      else if c = 0x7B then TLBrace # lex cs
      else if c = 0x7D then TRBrace # lex cs
      else if c = 0x5B then TLBrack # lex cs
      else if c = 0x5D then TRBrack # lex cs
      else if c = 0x3A then TColon # lex cs
      else if c = 0x2C then TComma # lex cs
      else if prefix (u ''null'') (c # cs) then TNull # lex (drop 3 cs)
      else if prefix (u ''true'') (c # cs) then TTrue # lex (drop 3 cs)
      else if prefix (u ''false'') (c # cs) then TFalse # lex (drop 4 cs)
      else
        (case match_number (c # cs) of
           Some (t, r) \<Rightarrow> t # lex r
         | None \<Rightarrow>
             if prefix (u ''NaN'') (c # cs) then TNaN # lex (drop 2 cs)
             else if prefix (u ''Infinity'') (c # cs) then TInfinity # lex (drop 7 cs)
             else if prefix (u ''-Infinity'') (c # cs) then TNegInfinity # lex (drop 8 cs)
             else [TBad]))"
  by pat_completeness auto
termination
proof (relation "measure length")
qed (auto dest: scanstring_shorter match_number_shorter intro: le_imp_less_Suc)

text \<open>
  The nesting.  A frame is an array or an object that waits for the value being read;
  the mode says what the decoder expects next.
\<close>

datatype frame = FArr "json list" | FObj "(ustr \<times> json) list" ustr

datatype mode =
    Value
  | Elems0
  | AfterElem "json list"
  | Key0
  | KeyN "(ustr \<times> json) list"
  | Colon "(ustr \<times> json) list" ustr
  | AfterPair "(ustr \<times> json) list"
  | End json

text \<open>A finished value goes to the frame that waits for it; a repeated key keeps the last value.\<close>

fun deliver :: "json \<Rightarrow> frame list \<Rightarrow> mode \<times> frame list" where
  "deliver v [] = (End v, [])"
| "deliver v (FArr vs # st) = (AfterElem (vs @ [v]), st)"
| "deliver v (FObj kvs k # st) = (AfterPair (dict_set kvs k v), st)"

text \<open>\<open>int(s)\<close> and \<open>repr(i)\<close> refuse an integer of more digits than the limit, when there is one.\<close>

definition too_long :: "interpreter \<Rightarrow> nat \<Rightarrow> bool" where
  "too_long py n = (0 < max_str_digits py \<and> max_str_digits py < n)"

text \<open>
  A value starts.  The frames are the containers that are open around it: a new one
  opens only as long as the interpreter allows one more.
\<close>

fun value_step :: "interpreter \<Rightarrow> frame list \<Rightarrow> token \<Rightarrow> exn + mode \<times> frame list" where
  "value_step py st TLBrack =
     (if length st < decode_depth py then Inr (Elems0, st) else Inl RecursionError)"
| "value_step py st TLBrace =
     (if length st < decode_depth py then Inr (Key0, st) else Inl RecursionError)"
| "value_step py st (TString s) = Inr (deliver (JStr s) st)"
| "value_step py st (TInt s) =
     (if too_long py (length (filter digit s)) then Inl ValueError
      else Inr (deliver (JInt (int_of_text s)) st))"
| "value_step py st (TFloat s) = Inr (deliver (JFloat (float_repr py s)) st)"
| "value_step py st TNaN = Inr (deliver (JFloat (u ''NaN'')) st)"
| "value_step py st TInfinity = Inr (deliver (JFloat (u ''Infinity'')) st)"
| "value_step py st TNegInfinity = Inr (deliver (JFloat (u ''-Infinity'')) st)"
| "value_step py st TTrue = Inr (deliver (JBool True) st)"
| "value_step py st TFalse = Inr (deliver (JBool False) st)"
| "value_step py st TNull = Inr (deliver JNull st)"
| "value_step py st _ = Inl JSONDecodeError"

fun step :: "interpreter \<Rightarrow> mode \<Rightarrow> frame list \<Rightarrow> token \<Rightarrow> exn + mode \<times> frame list" where
  "step py Value st t = value_step py st t"
| "step py Elems0 st t =
     (if t = TRBrack then Inr (deliver (JArr []) st) else value_step py (FArr [] # st) t)"
| "step py (AfterElem vs) st t =
     (if t = TComma then Inr (Value, FArr vs # st)
      else if t = TRBrack then Inr (deliver (JArr vs) st)
      else Inl JSONDecodeError)"
| "step py Key0 st t =
     (case t of TRBrace \<Rightarrow> Inr (deliver (JObj []) st)
      | TString k \<Rightarrow> Inr (Colon [] k, st)
      | _ \<Rightarrow> Inl JSONDecodeError)"
| "step py (KeyN kvs) st t =
     (case t of TString k \<Rightarrow> Inr (Colon kvs k, st) | _ \<Rightarrow> Inl JSONDecodeError)"
| "step py (Colon kvs k) st t =
     (if t = TColon then Inr (Value, FObj kvs k # st) else Inl JSONDecodeError)"
| "step py (AfterPair kvs) st t =
     (if t = TComma then Inr (KeyN kvs, st)
      else if t = TRBrace then Inr (deliver (JObj kvs) st)
      else Inl JSONDecodeError)"
| "step py (End v) st t = Inl JSONDecodeError"

fun run :: "interpreter \<Rightarrow> mode \<Rightarrow> frame list \<Rightarrow> token list \<Rightarrow> exn + json" where
  "run py m st [] = (case m of End v \<Rightarrow> Inr v | _ \<Rightarrow> Inl JSONDecodeError)"
| "run py m st (t # ts) =
     (case step py m st t of Inl x \<Rightarrow> Inl x | Inr (m', st') \<Rightarrow> run py m' st' ts)"

definition json_loads :: "interpreter \<Rightarrow> ustr \<Rightarrow> exn + json" where
  "json_loads py s = run py Value [] (lex s)"

section \<open>The response parser\<close>

text \<open>
  The body of the \<open>try\<close> of \<open>extract_json_from_text\<close>: strip, take the fenced block,
  cut from the first \<open>{\<close> to the last \<open>}\<close>, decode.
\<close>

definition json_text :: "ustr \<Rightarrow> ustr" where
  "json_text cleaned =
     (let start = find_py cleaned (u ''{''); end' = rfind_py cleaned (u ''}'') + 1
      in if start \<noteq> - 1 \<and> end' \<noteq> 0 then slice_py cleaned start end' else cleaned)"

definition try_extract :: "interpreter \<Rightarrow> ustr \<Rightarrow> exn + json" where
  "try_extract py text =
     bind_exn (code_block (strip text)) (\<lambda>cleaned. json_loads py (json_text cleaned))"

text \<open>
  \<open>extract_json_from_text\<close>: only \<open>JSONDecodeError\<close> is caught; the handler prints two
  lines and returns the default roadmap of \<open>"Unknown"\<close>, \<open>"Unknown"\<close>.  Any other
  exception leaves the method.
\<close>

definition extract_json_from_text :: "env \<Rightarrow> ustr \<Rightarrow> world \<Rightarrow> (exn + json) \<times> world" where
  "extract_json_from_text e text w =
     (case try_extract (python e) text of
        Inr v \<Rightarrow> (Inr v, w)
      | Inl x \<Rightarrow>
          if x = JSONDecodeError then
            (let w1 = print [Lit (0x274C # u '' JSON parsing failed: ''), Exc x] w;
                 w2 = print [Lit (u ''Raw response: '' @ take 500 text @ u ''...'')] w1;
                 (d, w3) = create_default_roadmap e (u ''Unknown'') (u ''Unknown'') w2
             in (Inr d, w3))
          else (Inl x, w))"

section \<open>The search collaborator\<close>

text \<open>
  The operations \<open>search_duckduckgo\<close> applies to the decoded response, whatever its
  type.  The floats that count as false are the two zeros.
\<close>

fun truthy :: "json \<Rightarrow> bool" where
  "truthy JNull = False"
| "truthy (JBool b) = b"
| "truthy (JInt i) = (i \<noteq> 0)"
| "truthy (JFloat t) = (t \<noteq> u ''0.0'' \<and> t \<noteq> u ''-0.0'')"
| "truthy (JStr s) = (s \<noteq> [])"
| "truthy (JArr vs) = (vs \<noteq> [])"
| "truthy (JObj kvs) = (kvs \<noteq> [])"

text \<open>\<open>x.get(k)\<close>: only a dict has the method.\<close>

fun get_py :: "json \<Rightarrow> ustr \<Rightarrow> exn + json" where
  "get_py (JObj kvs) k = Inr (case dict_get kvs k of None \<Rightarrow> JNull | Some v \<Rightarrow> v)"
| "get_py _ k = Inl AttributeError"

text \<open>\<open>x[k]\<close> with a \<open>str\<close> key.\<close>

fun subscript_py :: "json \<Rightarrow> ustr \<Rightarrow> exn + json" where
  "subscript_py (JObj kvs) k = (case dict_get kvs k of None \<Rightarrow> Inl KeyError | Some v \<Rightarrow> Inr v)"
| "subscript_py _ k = Inl TypeError"

text \<open>The items a \<open>for\<close> loop over \<open>x[:3]\<close> meets: a list and a \<open>str\<close> can be sliced.\<close>

fun first3 :: "json \<Rightarrow> exn + json list" where
  "first3 (JArr vs) = Inr (take 3 vs)"
| "first3 (JStr s) = Inr (map (\<lambda>c. JStr [c]) (take 3 s))"
| "first3 _ = Inl TypeError"

text \<open>\<open>k in x\<close> for a \<open>str\<close> \<open>k\<close>.\<close>

fun in_py :: "ustr \<Rightarrow> json \<Rightarrow> exn + bool" where
  "in_py k (JStr s) = Inr (contains k s)"
| "in_py k (JArr vs) = Inr (List.member vs (JStr k))"
| "in_py k (JObj kvs) = Inr (List.member (map fst kvs) k)"
| "in_py k _ = Inl TypeError"

text \<open>The loop over the related topics, lines 48 to 50.\<close>

fun topic_texts :: "json list \<Rightarrow> exn + json list" where
  "topic_texts [] = Inr []"
| "topic_texts (topic # topics) =
     bind_exn (in_py (u ''Text'') topic) (\<lambda>has.
       if has then
         bind_exn (subscript_py topic (u ''Text'')) (\<lambda>text.
         bind_exn (topic_texts topics) (\<lambda>texts. Inr (text # texts)))
       else topic_texts topics)"

text \<open>\<open>sep.join(xs)\<close> on any values: every item has to be a \<open>str\<close>.\<close>

fun strs :: "json list \<Rightarrow> exn + ustr list" where
  "strs [] = Inr []"
| "strs (JStr s # vs) = bind_exn (strs vs) (\<lambda>ss. Inr (s # ss))"
| "strs (_ # vs) = Inl TypeError"

definition join_py :: "ustr \<Rightarrow> json list \<Rightarrow> exn + ustr" where
  "join_py sep vs = bind_exn (strs vs) (\<lambda>ss. Inr (join sep ss))"

definition no_results :: "ustr \<Rightarrow> ustr" where
  "no_results query =
     u ''Search for '' @ [0x27] @ query @ [0x27]
     @ u '' didn't return specific results. Using standard interview process.''"

definition search_unavailable :: ustr where
  "search_unavailable = u ''Search unavailable. Using standard interview process for the role.''"

text \<open>The body of the \<open>try\<close> of \<open>search_duckduckgo\<close>, lines 28 to 56.\<close>

definition search_body :: "env \<Rightarrow> ustr \<Rightarrow> exn + ustr" where
  "search_body e query =
     bind_exn (ddg e query) (\<lambda>data.
     bind_exn (get_py data (u ''Abstract'')) (\<lambda>abstract.
     bind_exn (get_py data (u ''RelatedTopics'')) (\<lambda>related.
     bind_exn (if truthy related then bind_exn (first3 related) topic_texts else Inr []) (\<lambda>texts.
       let results = (if truthy abstract then [abstract] else []) @ texts
       in if results = [] then Inr (no_results query)
          else bind_exn (join_py (u '' '') results) (\<lambda>s. Inr (take 1500 s))))))"

definition search_duckduckgo :: "env \<Rightarrow> ustr \<Rightarrow> world \<Rightarrow> (exn + ustr) \<times> world" where
  "search_duckduckgo e query w =
     (let w1 = w\<lparr>net := net w @ [Search query]\<rparr>
      in case search_body e query of
           Inr s \<Rightarrow> (Inr s, w1)
         | Inl x \<Rightarrow>
             if is_Exception x then
               (Inr search_unavailable,
                print [Lit ([0x26A0, 0xFE0F] @ u '' DuckDuckGo search failed: ''), Exc x] w1)
             else (Inl x, w1))"

definition queries :: "ustr \<Rightarrow> ustr \<Rightarrow> ustr list" where
  "queries company role =
     [company @ u '' '' @ role @ u '' interview process'',
      company @ u '' technical interview questions '' @ role,
      company @ u '' hiring process '' @ role,
      u ''how to prepare for '' @ company @ u '' '' @ role @ u '' interview'']"

text \<open>The loop of \<open>search_company_info\<close>, lines 74 to 80.\<close>

fun search_each :: "env \<Rightarrow> ustr list \<Rightarrow> ustr list \<Rightarrow> world \<Rightarrow> (exn + ustr list) \<times> world" where
  "search_each e [] all_results w = (Inr all_results, w)"
| "search_each e (query # qs) all_results w =
     (case search_duckduckgo e query w of
        (Inr result, w1) \<Rightarrow>
          search_each e qs
            (if result \<noteq> [] \<and> \<not> contains (u ''didn't return specific results'') result
             then all_results @ [result] else all_results) w1
      | (Inl x, w1) \<Rightarrow>
          if is_Exception x then
            search_each e qs all_results
              (print [Lit ([0x26A0, 0xFE0F] @ u '' Query '' @ [0x27] @ query @ [0x27]
                           @ u '' failed: ''), Exc x] w1)
          else (Inl x, w1))"

definition standard_process :: "ustr \<Rightarrow> ustr \<Rightarrow> ustr" where
  "standard_process company role =
     u ''\<newline>'' @
     u ''        Standard interview process for '' @
     role @
     u '' positions at '' @
     company @
     u ''. \<newline>'' @
     u ''        Typically includes:\<newline>'' @
     u ''        - Technical screening round with coding questions\<newline>'' @
     u ''        - System design discussion for mid-level and above roles\<newline>'' @
     u ''        - Behavioral and cultural fit interviews\<newline>'' @
     u ''        - Possible take-home assignment or live coding session\<newline>'' @
     u ''        \<newline>'' @
     u ''        Focus on data structures, algorithms, and company-specific technologies.\<newline>'' @
     u ''        ''"

definition search_company_info :: "env \<Rightarrow> ustr \<Rightarrow> ustr \<Rightarrow> world \<Rightarrow> (exn + ustr) \<times> world" where
  "search_company_info e company role w =
     (let w1 = print [Lit (0x1F50D # u '' Searching DuckDuckGo for '' @ company @ u '' '' @ role
                           @ u '' interview process...'')] w
      in case search_each e (take 2 (queries company role)) [] w1 of
           (Inl x, w2) \<Rightarrow> (Inl x, w2)
         | (Inr all_results, w2) \<Rightarrow>
             if all_results \<noteq> [] then (Inr (take 2000 (join (u '' '') all_results)), w2)
             else (Inr (standard_process company role), w2))"

section \<open>Generating the roadmap\<close>

definition prompt_text :: "ustr \<Rightarrow> ustr \<Rightarrow> ustr \<Rightarrow> ustr \<Rightarrow> ustr" where
  \<open>prompt_text company role jd_text company_info =
     u ''\<newline>'' @
     u ''        Create a comprehensive interview preparation roadmap based on the job description and company information.\<newline>'' @
     u ''        \<newline>'' @
     u ''        COMPANY: '' @
     company @
     u ''\<newline>'' @
     u ''        ROLE: '' @
     role @
     u ''\<newline>'' @
     u ''        \<newline>'' @
     u ''        JOB DESCRIPTION:\<newline>'' @
     u ''        '' @
     jd_text @
     u ''\<newline>'' @
     u ''        \<newline>'' @
     u ''        COMPANY INTERVIEW INFO:\<newline>'' @
     u ''        '' @
     company_info @
     u ''\<newline>'' @
     u ''        \<newline>'' @
     u ''        Please provide a structured roadmap in JSON format with these exact fields:\<newline>'' @
     u ''        - company: Company name\<newline>'' @
     u ''        - role: Job role  \<newline>'' @
     u ''        - rounds: List of 3-5 interview rounds, each with "type" and "topics" (list of 3-5 topics per round)\<newline>'' @
     u ''        - difficulty: Overall difficulty (Easy, Medium, Hard, Very Hard)\<newline>'' @
     u ''        - recommended_order: Suggested study order of main topics\<newline>'' @
     u ''        - evidence: Object with "key_skills" (from JD) and "topic_count"\<newline>'' @
     u ''        \<newline>'' @
     u ''        Return ONLY valid JSON without any additional text, comments, or explanations.\<newline>'' @
     u ''        \<newline>'' @
     u ''        Example format:\<newline>'' @
     u ''        {\<newline>'' @
     u ''            "company": "Google",\<newline>'' @
     u ''            "role": "SDE1",\<newline>'' @
     u ''            "rounds": [\<newline>'' @
     u ''                {"type": "Technical Screening", "topics": ["Data Structures", "Algorithms", "Problem Solving"]},\<newline>'' @
     u ''                {"type": "Coding Round", "topics": ["System Design", "Object-Oriented Programming", "API Design"]},\<newline>'' @
     u ''                {"type": "System Design", "topics": ["Microservices", "Scalability", "Database Design"]},\<newline>'' @
     u ''                {"type": "Behavioral", "topics": ["Teamwork", "Communication", "Leadership"]}\<newline>'' @
     u ''            ],\<newline>'' @
     u ''            "difficulty": "Hard",\<newline>'' @
     u ''            "recommended_order": ["Data Structures", "Algorithms", "System Design", "Behavioral"],\<newline>'' @
     u ''            "evidence": {\<newline>'' @
     u ''                "key_skills": ["Python", "AWS", "Docker"],\<newline>'' @
     u ''                "topic_count": 4\<newline>'' @
     u ''            }\<newline>'' @
     u ''        }\<newline>'' @
     u ''        ''\<close>

definition generate_roadmap ::
  "env \<Rightarrow> ustr \<Rightarrow> ustr \<Rightarrow> ustr \<Rightarrow> world \<Rightarrow> (exn + json) \<times> world" where
  "generate_roadmap e company role jd_text w =
     (let w1 = print [Lit (0x1F3AF # u '' Generating roadmap for '' @ role @ u '' at '' @ company
                           @ u ''...'')] w;
          w2 = print [Lit (0x1F310 # u '' Gathering company information from DuckDuckGo...'')] w1
      in case search_company_info e company role w2 of
           (Inl x, w3) \<Rightarrow> (Inl x, w3)
         | (Inr company_info, w3) \<Rightarrow>
            (let prompt = prompt_text company role jd_text company_info;
                 w4 = print [Lit (0x1F9E0 # u '' Generating roadmap with AI...'')] w3;
                 w5 = w4\<lparr>net := net w4 @ [Ask prompt]\<rparr>
             in case llm e prompt of
                  Inl x \<Rightarrow>
                    if is_Exception x then
                      (let w6 = print [Lit (0x274C # u '' LLM call failed: ''), Exc x] w5;
                           (d, w7) = create_default_roadmap e company role w6
                       in (Inr d, w7))
                    else (Inl x, w5)
                | Inr response_text \<Rightarrow>
                   (case extract_json_from_text e response_text w5 of
                      (Inl x, w6) \<Rightarrow> (Inl x, w6)
                    | (Inr roadmap, w6) \<Rightarrow>
                       (case setitem roadmap (u ''company'') (JStr company) of
                          Inl x \<Rightarrow> (Inl x, w6)
                        | Inr r1 \<Rightarrow>
                       (case setitem r1 (u ''role'') (JStr role) of
                          Inl x \<Rightarrow> (Inl x, w6)
                        | Inr r2 \<Rightarrow>
                       (let (now, w7) = now_isoformat e w6
                        in case setitem r2 (u ''generated_at'') (JStr now) of
                             Inl x \<Rightarrow> (Inl x, w7)
                           | Inr r3 \<Rightarrow>
                          (case setitem r3 (u ''version'') (JStr (u ''1.0'')) of
                             Inl x \<Rightarrow> (Inl x, w7)
                           | Inr r4 \<Rightarrow>
                               (Inr r4,
                                print [Lit (0x2705 # u '' Roadmap generated successfully!'')] w7))))))))"

section \<open>A sample environment\<close>

text \<open>
  An interpreter to run the program on, with the limits of CPython 3.11 as it starts
  (a recursion limit of 1000, 4300 digits): the decoder nests 991 containers below the
  calls of \<open>agent.py\<close>, the encoder is taken to run out of frames 980 containers deep.
  It formats the floats of a few numerals as CPython does and takes every other numeral
  to be the \<open>repr\<close> of its float already.
\<close>

definition sample_repr :: "ustr \<Rightarrow> ustr" where
  "sample_repr s =
     (if s = u ''1.50'' then u ''1.5''
      else if s = u ''1e400'' then u ''Infinity''
      else if s = u ''-1e400'' then u ''-Infinity''
      else if s = u ''1e-400'' then u ''0.0''
      else if s = u ''1E+5'' then u ''100000.0''
      else s)"

definition sample_python :: interpreter where
  "sample_python =
     \<lparr>decode_depth = 991,
      encoder_overflow = (\<lambda>d x. 980 \<le> d),
      max_str_digits = 4300,
      float_repr = sample_repr\<rparr>"

text \<open>
  A file system that stores every file but one whose name is longer than 255 bytes of
  UTF-8 (\<open>OSError\<close>) or holds a NUL (\<open>ValueError\<close>), as Linux does.
\<close>

definition utf8_length :: "ustr \<Rightarrow> nat" where
  "utf8_length s =
     sum_list (map (\<lambda>c. if c < 0x80 then 1 else if c < 0x800 then 2
                         else if c < 0x10000 then 3 else 4) s)"

definition sample_disk :: "ustr \<Rightarrow> ustr \<Rightarrow> os_outcome" where
  "sample_disk name content =
     (if 0 \<in> set name then OpenFails ValueError
      else if 255 < utf8_length name then OpenFails OSError
      else Stored)"

text \<open>
  An environment and a world to run the program in: the search fails, the LLM gives one
  fixed outcome, the clock reads a new second at each call, lower-casing changes the
  ASCII capitals, nothing was printed or written yet.
\<close>

definition sample_env :: "exn + ustr \<Rightarrow> env" where
  "sample_env reply =
     \<lparr>api_key = Some (u ''secret''),
      clock = (\<lambda>n. u ''2024-05-01T10:00:0'' @ [0x30 + n]),
      ddg = (\<lambda>query. Inl RequestException),
      llm = (\<lambda>prompt. reply),
      lower = map (\<lambda>c. if 0x41 \<le> c \<and> c \<le> 0x5A then c + 0x20 else c),
      python = sample_python,
      disk = sample_disk\<rparr>"

definition sample_world :: "input_event list \<Rightarrow> world" where
  "sample_world input = \<lparr>stdin = input, stdout = [], files = (\<lambda>name. None), ticks = 0, net = []\<rparr>"

text \<open>
  The four assignments of lines 190 to 195 of \<open>generate_roadmap\<close> at once, for a clock
  reading \<open>now\<close>.
\<close>

definition stamp :: "json \<Rightarrow> ustr \<Rightarrow> ustr \<Rightarrow> ustr \<Rightarrow> exn + json" where
  "stamp roadmap company role now =
     bind_exn (setitem roadmap (u ''company'') (JStr company)) (\<lambda>r1.
     bind_exn (setitem r1 (u ''role'') (JStr role)) (\<lambda>r2.
     bind_exn (setitem r2 (u ''generated_at'') (JStr now)) (\<lambda>r3.
     setitem r3 (u ''version'') (JStr (u ''1.0'')))))"

text \<open>A reply of the LLM that sets the four fields the system owns.\<close>

definition hostile_reply :: ustr where
  \<open>hostile_reply =
     u ''{"company": "Evil", "role": "none", "generated_at": "1999", "version": "9", "difficulty": "Hard"}''\<close>

text \<open>An environment whose search answers every query with one abstract.\<close>

definition answering_env :: env where
  "answering_env =
     (sample_env (Inl LLMError))
       \<lparr>ddg := (\<lambda>query. Inr (JObj [(u ''Abstract'', JStr (u ''Acme hires engineers.''))]))\<rparr>"

text \<open>An environment whose search answers with JSON of the wrong shape.\<close>

definition malformed_env :: env where
  "malformed_env = (sample_env (Inl LLMError))\<lparr>ddg := (\<lambda>query. Inr (JArr [JInt 1]))\<rparr>"

section \<open>Encoding JSON\<close>

text \<open>
  \<open>json.dump(x, f, indent=2, ensure_ascii=False)\<close>: the text it writes.  An integer is
  written in decimal, a float as its text, a string between quotes with \<open>"\<close>, \<open>\\<close>
  and the control characters below \<open>0x20\<close> escaped and every other character as it is.
\<close>

function digits_of :: "nat \<Rightarrow> ustr" where
  "digits_of n = (if n < 10 then [0x30 + n] else digits_of (n div 10) @ [0x30 + n mod 10])"
  by pat_completeness auto
termination
  by (relation "measure (\<lambda>n. n)") auto

declare digits_of.simps [simp del]

definition show_int :: "int \<Rightarrow> ustr" where
  "show_int i = (if i < 0 then 0x2D # digits_of (nat (- i)) else digits_of (nat i))"

definition hex_digit :: "nat \<Rightarrow> nat" where
  "hex_digit d = (if d < 10 then 0x30 + d else 0x57 + d)"

definition escape :: "nat \<Rightarrow> ustr" where
  "escape c =
     (if c = 0x22 then [0x5C, 0x22]
      else if c = 0x5C then [0x5C, 0x5C]
      else if c = 0x0A then [0x5C, 0x6E]
      else if c = 0x0D then [0x5C, 0x72]
      else if c = 0x09 then [0x5C, 0x74]
      else if c = 0x08 then [0x5C, 0x62]
      else if c = 0x0C then [0x5C, 0x66]
      else if c < 0x20 then [0x5C, 0x75, 0x30, 0x30, hex_digit (c div 16), hex_digit (c mod 16)]
      else [c])"

definition encode_str :: "ustr \<Rightarrow> ustr" where
  "encode_str s = 0x22 # concat (map escape s) @ [0x22]"

definition newline_indent :: "nat \<Rightarrow> ustr" where
  "newline_indent level = 0x0A # replicate (2 * level) 0x20"

fun dump_value :: "nat \<Rightarrow> json \<Rightarrow> ustr"
  and dump_items :: "nat \<Rightarrow> json list \<Rightarrow> ustr"
  and dump_pairs :: "nat \<Rightarrow> (ustr \<times> json) list \<Rightarrow> ustr"
where
  "dump_value level JNull = u ''null''"
| "dump_value level (JBool b) = (if b then u ''true'' else u ''false'')"
| "dump_value level (JInt i) = show_int i"
| "dump_value level (JFloat t) = t"
| "dump_value level (JStr s) = encode_str s"
| "dump_value level (JArr vs) =
     (if vs = [] then u ''[]''
      else 0x5B # newline_indent (Suc level) @ dump_items (Suc level) vs
           @ newline_indent level @ [0x5D])"
| "dump_value level (JObj kvs) =
     (if kvs = [] then u ''{}''
      else 0x7B # newline_indent (Suc level) @ dump_pairs (Suc level) kvs
           @ newline_indent level @ [0x7D])"
| "dump_items level [] = []"
| "dump_items level (v # vs) =
     dump_value level v
     @ (if vs = [] then [] else 0x2C # newline_indent level @ dump_items level vs)"
| "dump_pairs level [] = []"
| "dump_pairs level ((k, v) # kvs) =
     encode_str k @ u '': '' @ dump_value level v
     @ (if kvs = [] then [] else 0x2C # newline_indent level @ dump_pairs level kvs)"

definition json_dumps :: "json \<Rightarrow> ustr" where
  "json_dumps x = dump_value 0 x"

section \<open>Saving and showing the roadmap\<close>

text \<open>\<open>s.replace(a, b)\<close> for single characters.\<close>

definition replace_char :: "nat \<Rightarrow> nat \<Rightarrow> ustr \<Rightarrow> ustr" where
  "replace_char a b s = map (\<lambda>c. if c = a then b else c) s"

text \<open>A text the UTF-8 codec can write: one without a surrogate code point.\<close>

definition encodable :: "ustr \<Rightarrow> bool" where
  "encodable s = list_all (\<lambda>c. c < 0xD800 \<or> 0xDFFF < c) s"

text \<open>
  What stops \<open>json.dump\<close> at a scalar (a key is one) that lies \<open>d\<close> containers deep: no
  frame left, an integer of too many digits, a string the codec of the file refuses.
\<close>

definition leaf_error :: "interpreter \<Rightarrow> nat \<Rightarrow> json \<Rightarrow> exn option" where
  "leaf_error py d x =
     (if encoder_overflow py d x then Some RecursionError
      else case x of
             JInt i \<Rightarrow>
               if too_long py (length (digits_of (nat \<bar>i\<bar>))) then Some ValueError else None
           | JStr s \<Rightarrow> if encodable s then None else Some UnicodeEncodeError
           | _ \<Rightarrow> None)"

text \<open>
  The exception \<open>json.dump\<close> raises on a value, if any: the encoder writes the value
  piece by piece from left to right, so it is the first one met in that order.
\<close>

fun dump_error :: "interpreter \<Rightarrow> nat \<Rightarrow> json \<Rightarrow> exn option"
  and dump_error_items :: "interpreter \<Rightarrow> nat \<Rightarrow> json list \<Rightarrow> exn option"
  and dump_error_pairs :: "interpreter \<Rightarrow> nat \<Rightarrow> (ustr \<times> json) list \<Rightarrow> exn option"
where
  "dump_error py d (JArr vs) =
     (if encoder_overflow py d (JArr vs) then Some RecursionError
      else dump_error_items py (Suc d) vs)"
| "dump_error py d (JObj kvs) =
     (if encoder_overflow py d (JObj kvs) then Some RecursionError
      else dump_error_pairs py (Suc d) kvs)"
| "dump_error py d JNull = leaf_error py d JNull"
| "dump_error py d (JBool b) = leaf_error py d (JBool b)"
| "dump_error py d (JInt i) = leaf_error py d (JInt i)"
| "dump_error py d (JFloat t) = leaf_error py d (JFloat t)"
| "dump_error py d (JStr s) = leaf_error py d (JStr s)"
| "dump_error_items py d [] = None"
| "dump_error_items py d (v # vs) =
     (case dump_error py d v of Some x \<Rightarrow> Some x | None \<Rightarrow> dump_error_items py d vs)"
| "dump_error_pairs py d [] = None"
| "dump_error_pairs py d ((k, v) # kvs) =
     (case leaf_error py d (JStr k) of
        Some x \<Rightarrow> Some x
      | None \<Rightarrow>
          (case dump_error py d v of Some x \<Rightarrow> Some x | None \<Rightarrow> dump_error_pairs py d kvs))"

definition roadmap_filename :: "env \<Rightarrow> ustr \<Rightarrow> ustr \<Rightarrow> ustr" where
  "roadmap_filename e company role =
     lower e (replace_char 0x2F 0x5F (replace_char 0x20 0x5F
       (company @ u ''_'' @ role @ u ''_roadmap.json'')))"

text \<open>
  \<open>save_roadmap\<close>.  When \<open>open\<close> raises, the files are as they were.  Otherwise the file
  is emptied, and an exception of \<open>json.dump\<close> or of the write leaves it broken off.
\<close>

definition save_roadmap :: "env \<Rightarrow> json \<Rightarrow> ustr \<Rightarrow> ustr \<Rightarrow> world \<Rightarrow> (exn + ustr) \<times> world" where
  "save_roadmap e roadmap company role w =
     (let filename = roadmap_filename e company role;
          content = json_dumps roadmap;
          broken = w\<lparr>files := (files w)(filename := Some Broken)\<rparr>
      in case disk e filename content of
           OpenFails x \<Rightarrow> (Inl x, w)
         | WriteFails x \<Rightarrow>
             (case dump_error (python e) 0 roadmap of
                Some x' \<Rightarrow> (Inl x', broken)
              | None \<Rightarrow> (Inl x, broken))
         | Stored \<Rightarrow>
             (case dump_error (python e) 0 roadmap of
                Some x' \<Rightarrow> (Inl x', broken)
              | None \<Rightarrow>
                  (Inr filename,
                   print [Lit (0x1F4BE # u '' Roadmap saved as: '' @ filename)]
                     (w\<lparr>files := (files w)(filename := Some (Written content))\<rparr>))))"

text \<open>The operations \<open>display_roadmap\<close> applies to the fields, whatever their type.\<close>

fun get_default :: "json \<Rightarrow> ustr \<Rightarrow> json \<Rightarrow> exn + json" where
  "get_default (JObj kvs) k d = Inr (case dict_get kvs k of None \<Rightarrow> d | Some v \<Rightarrow> v)"
| "get_default _ k d = Inl AttributeError"

fun len_py :: "json \<Rightarrow> exn + int" where
  "len_py (JStr s) = Inr (int (length s))"
| "len_py (JArr vs) = Inr (int (length vs))"
| "len_py (JObj kvs) = Inr (int (length kvs))"
| "len_py _ = Inl TypeError"

fun iter_py :: "json \<Rightarrow> exn + json list" where
  "iter_py (JStr s) = Inr (map (\<lambda>c. JStr [c]) s)"
| "iter_py (JArr vs) = Inr vs"
| "iter_py (JObj kvs) = Inr (map (\<lambda>kv. JStr (fst kv)) kvs)"
| "iter_py _ = Inl TypeError"

definition join_iter :: "ustr \<Rightarrow> json \<Rightarrow> exn + ustr" where
  "join_iter sep x = bind_exn (iter_py x) (join_py sep)"

text \<open>Go on with the value, or stop with the exception in the world as it is.\<close>

definition try_in :: "exn + 'a \<Rightarrow> world \<Rightarrow> ('a \<Rightarrow> (exn + 'b) \<times> world) \<Rightarrow> (exn + 'b) \<times> world" where
  "try_in m w f = (case m of Inl x \<Rightarrow> (Inl x, w) | Inr a \<Rightarrow> f a)"

text \<open>The loop over the rounds, lines 243 to 247.\<close>

fun display_rounds :: "nat \<Rightarrow> json list \<Rightarrow> world \<Rightarrow> (exn + unit) \<times> world" where
  "display_rounds i [] w = (Inr (), w)"
| "display_rounds i (round_info # rest) w =
     try_in (get_default round_info (u ''type'') (JStr (u ''Unknown''))) w (\<lambda>round_type.
     try_in (bind_exn (get_default round_info (u ''topics'') (JArr [])) (join_iter (u '', ''))) w
       (\<lambda>topics.
         display_rounds (Suc i) rest
           (print [Lit (u ''     '' @ [0x1F4DA] @ u '' Topics: '' @ topics)]
             (print [Lit (u ''  ''), Val (JInt (int i)), Lit (u ''. ''), Val round_type] w))))"

definition display_roadmap :: "json \<Rightarrow> world \<Rightarrow> (exn + unit) \<times> world" where
  "display_roadmap roadmap w =
     (let w1 = print [Lit (0x0A # replicate 60 0x3D)] w;
          w2 = print [Lit (0x1F4CA # u '' ROADMAP SUMMARY'')] w1;
          w3 = print [Lit (replicate 60 0x3D)] w2
      in
      try_in (get_default roadmap (u ''company'') (JStr (u ''N/A''))) w3 (\<lambda>company.
      let w4 = print [Lit (0x1F3E2 # u '' Company: ''), Val company] w3 in
      try_in (get_default roadmap (u ''role'') (JStr (u ''N/A''))) w4 (\<lambda>role.
      let w5 = print [Lit (0x1F4BC # u '' Role: ''), Val role] w4 in
      try_in (get_default roadmap (u ''difficulty'') (JStr (u ''N/A''))) w5 (\<lambda>difficulty.
      let w6 = print [Lit (0x1F3AF # u '' Difficulty: ''), Val difficulty] w5 in
      try_in (bind_exn (get_default roadmap (u ''rounds'') (JArr [])) len_py) w6 (\<lambda>n.
      let w7 = print [Lit (0x1F504 # u '' Total Rounds: ''), Val (JInt n)] w6;
          w8 = print [Lit (0x0A # 0x1F504 # u '' Interview Rounds:'')] w7 in
      try_in (bind_exn (get_default roadmap (u ''rounds'') (JArr [])) iter_py) w8 (\<lambda>rounds.
      case display_rounds 1 rounds w8 of
        (Inl x, w9) \<Rightarrow> (Inl x, w9)
      | (Inr _, w9) \<Rightarrow>
      try_in (bind_exn (get_default roadmap (u ''recommended_order'') (JArr []))
                (join_iter (u '', ''))) w9 (\<lambda>order.
      let w10 = print [Lit (0x0A # 0x1F4D6 # u '' Recommended Study Order: '' @ order)] w9 in
      try_in (get_default roadmap (u ''evidence'') (JObj [])) w10 (\<lambda>evidence.
      case (if truthy evidence then
              try_in (bind_exn (get_default evidence (u ''key_skills'') (JArr []))
                        (join_iter (u '', ''))) w10 (\<lambda>skills.
                (Inr (), print [Lit (0x1F50D # u '' Key Skills from JD: '' @ skills)] w10))
            else (Inr (), w10)) of
        (Inl x, w11) \<Rightarrow> (Inl x, w11)
      | (Inr _, w11) \<Rightarrow>
      try_in (get_default roadmap (u ''note'') JNull) w11 (\<lambda>note.
      let w12 = (if truthy note then print [Lit (0x1F4A1 # u '' Note: ''), Val note] w11
                 else w11)
      in (Inr (), print [Lit (replicate 60 0x3D)] w12))))))))))"

section \<open>The command line\<close>

text \<open>
  The loop of \<open>get_job_description\<close>, lines 268 to 277: the lines read up to the end
  of the input or an interrupt, and the input left.
\<close>

fun read_lines :: "input_event list \<Rightarrow> ustr list \<times> input_event list" where
  "read_lines [] = ([], [])"
| "read_lines (Line s # rest) = (let (ls, left) = read_lines rest in (s # ls, left))"
| "read_lines (Interrupt # rest) = ([], rest)"

definition get_job_description :: "world \<Rightarrow> ustr option \<times> world" where
  "get_job_description w =
     (let w1 = print [Lit (0x0A # u ''Please paste the job description:'')] w;
          w2 = print [Lit (u ''(Enter your job description below. Press Ctrl+Z then Enter when finished on Windows)'')] w1;
          w3 = print [Lit (replicate 50 0x3D)] w2;
          (jd_lines, left) = read_lines (stdin w3);
          w4 = w3\<lparr>stdin := left\<rparr>;
          jd_text = join [0x0A] jd_lines
      in if strip jd_text = [] then
           (None, print [Lit (0x274C # u '' Error: Job description cannot be empty.'')] w4)
         else (Some jd_text, w4))"

text \<open>
  One of the two loops of \<open>main\<close> that ask for a mandatory line, lines 301 to 312: the
  answer, the input left and what was printed (a prompt of \<open>input\<close> is an entry of its
  own).  At the end of the input \<open>input\<close> raises, and nothing catches it.
\<close>

fun ask :: "ustr \<Rightarrow> ustr \<Rightarrow> input_event list \<Rightarrow> (exn + ustr) \<times> input_event list \<times> line list" where
  "ask prompt complaint [] = (Inl EOFError, [], [[Lit prompt]])"
| "ask prompt complaint (Interrupt # rest) = (Inl KeyboardInterrupt, rest, [[Lit prompt]])"
| "ask prompt complaint (Line s # rest) =
     (if strip s \<noteq> [] then (Inr (strip s), rest, [[Lit prompt]])
      else (let (r, left, out) = ask prompt complaint rest
            in (r, left, [Lit prompt] # [Lit complaint] # out)))"

definition ask_in :: "ustr \<Rightarrow> ustr \<Rightarrow> world \<Rightarrow> (exn + ustr) \<times> world" where
  "ask_in prompt complaint w =
     (let (r, left, out) = ask prompt complaint (stdin w)
      in (r, w\<lparr>stdin := left, stdout := stdout w @ out\<rparr>))"

text \<open>
  The \<open>try\<close> of \<open>main\<close>, lines 323 to 328.  Building the generator before it
  (the LLM client) is taken to succeed.
\<close>

definition run_generator :: "env \<Rightarrow> ustr \<Rightarrow> ustr \<Rightarrow> ustr \<Rightarrow> world \<Rightarrow> (exn + unit) \<times> world" where
  "run_generator e company role jd_text w =
     (case generate_roadmap e company role jd_text w of
        (Inl x, w1) \<Rightarrow> (Inl x, w1)
      | (Inr roadmap, w1) \<Rightarrow>
         (case display_roadmap roadmap w1 of
            (Inl x, w2) \<Rightarrow> (Inl x, w2)
          | (Inr _, w2) \<Rightarrow>
             (case save_roadmap e roadmap company role w2 of
                (Inl x, w3) \<Rightarrow> (Inl x, w3)
              | (Inr filename, w3) \<Rightarrow>
                  (Inr (),
                   print [Lit (0x0A # 0x2705 # u '' Complete! Roadmap saved to: '' @ filename)] w3))))"

definition main :: "env \<Rightarrow> world \<Rightarrow> (exn + unit) \<times> world" where
  "main e w =
     (if api_key e = None \<or> api_key e = Some [] then
        (Inr (),
         print [Lit (u ''   Get it from: https://aistudio.google.com/app/apikey'')]
           (print [Lit (0x274C # u '' Please set GOOGLE_API_KEY in your .env file'')] w))
      else
        (let w1 = print [Lit (0x1F680 # u '' Job Preparation Roadmap Generator'')] w;
             w2 = print [Lit (replicate 50 0x3D)] w1
         in case ask_in (u ''Enter company name: '')
                   (0x274C # u '' Company name is required. Please enter a company name.'') w2 of
              (Inl x, w3) \<Rightarrow> (Inl x, w3)
            | (Inr company, w3) \<Rightarrow>
               (case ask_in (u ''Enter job role: '')
                       (0x274C # u '' Job role is required. Please enter a job role.'') w3 of
                  (Inl x, w4) \<Rightarrow> (Inl x, w4)
                | (Inr role, w4) \<Rightarrow>
                   (case get_job_description w4 of
                      (None, w5) \<Rightarrow> (Inr (), w5)
                    | (Some jd_text, w5) \<Rightarrow>
                       (case run_generator e company role jd_text w5 of
                          (Inl x, w6) \<Rightarrow>
                            if is_Exception x then
                              (Inr (), print [Lit (0x274C # u '' Error generating roadmap: ''), Exc x] w6)
                            else (Inl x, w6)
                        | (Inr _, w6) \<Rightarrow> (Inr (), w6))))))"

section \<open>Records that can be stored\<close>

text \<open>A property of every value inside a value.\<close>

fun every :: "(json \<Rightarrow> bool) \<Rightarrow> json \<Rightarrow> bool"
  and every_items :: "(json \<Rightarrow> bool) \<Rightarrow> json list \<Rightarrow> bool"
  and every_pairs :: "(json \<Rightarrow> bool) \<Rightarrow> (ustr \<times> json) list \<Rightarrow> bool"
where
  "every P (JArr vs) = (P (JArr vs) \<and> every_items P vs)"
| "every P (JObj kvs) = (P (JObj kvs) \<and> every_pairs P kvs)"
| "every P v = P v"
| "every_items P [] = True"
| "every_items P (v # vs) = (every P v \<and> every_items P vs)"
| "every_pairs P [] = True"
| "every_pairs P ((k, v) # kvs) = (every P v \<and> every_pairs P kvs)"

text \<open>No string of the value, key or text, holds a surrogate code point.\<close>

fun clean :: "json \<Rightarrow> bool" where
  "clean (JStr s) = encodable s"
| "clean (JObj kvs) = encodable (concat (map fst kvs))"
| "clean _ = True"

text \<open>A numeral that the decoder reads as one float, all of it.\<close>

definition float_numeral :: "ustr \<Rightarrow> bool" where
  "float_numeral s = (match_number s = Some (TFloat s, []))"

text \<open>
  A float text that is read back as itself: one of the three constants, or a numeral
  that is the text of its own float.
\<close>

definition float_fixed :: "interpreter \<Rightarrow> ustr \<Rightarrow> bool" where
  "float_fixed py t =
     (t = u ''NaN'' \<or> t = u ''Infinity'' \<or> t = u ''-Infinity''
      \<or> (float_numeral t \<and> float_repr py t = t))"

text \<open>
  The property of float formatting that CPython has: the text written for a float is a
  numeral (or a constant) that denotes this very float.
\<close>

definition repr_stable :: "interpreter \<Rightarrow> bool" where
  "repr_stable py = (\<forall>s. float_numeral s \<longrightarrow> float_fixed py (float_repr py s))"

text \<open>
  A value that the decoder, \<open>d\<close> containers deep, can give: no container too deep, no
  key twice, no integer of too many digits, every float a text that is read back as
  itself.
\<close>

fun readable :: "interpreter \<Rightarrow> nat \<Rightarrow> json \<Rightarrow> bool"
  and readable_items :: "interpreter \<Rightarrow> nat \<Rightarrow> json list \<Rightarrow> bool"
  and readable_pairs :: "interpreter \<Rightarrow> nat \<Rightarrow> (ustr \<times> json) list \<Rightarrow> bool"
where
  "readable py d (JArr vs) = (d < decode_depth py \<and> readable_items py (Suc d) vs)"
| "readable py d (JObj kvs) =
     (d < decode_depth py \<and> distinct (map fst kvs) \<and> readable_pairs py (Suc d) kvs)"
| "readable py d (JInt i) = (\<not> too_long py (length (digits_of (nat \<bar>i\<bar>))))"
| "readable py d (JFloat t) = float_fixed py t"
| "readable py d JNull = True"
| "readable py d (JBool b) = True"
| "readable py d (JStr s) = True"
| "readable_items py d [] = True"
| "readable_items py d (v # vs) = (readable py d v \<and> readable_items py d vs)"
| "readable_pairs py d [] = True"
| "readable_pairs py d ((k, v) # kvs) = (readable py d v \<and> readable_pairs py d kvs)"

text \<open>A reply of the LLM whose one string is the escape of a lone surrogate.\<close>

definition surrogate_reply :: ustr where
  \<open>surrogate_reply = u ''{"a": "'' @ [0x5C] @ u ''ud800"}''\<close>

text \<open>A reply of the LLM that holds a float.\<close>

definition float_reply :: ustr where
  \<open>float_reply = u ''{"difficulty": "Hard", "weight": 1.50}''\<close>

section \<open>Properties\<close>

subsection \<open>Splitting and the fenced block\<close>

lemma split_acc_nonempty: "split_acc sep acc s \<noteq> []"
  by (induction sep acc s rule: split_acc.induct) auto

lemma split_acc_two: "contains sep s \<Longrightarrow> sep \<noteq> [] \<Longrightarrow> 2 \<le> length (split_acc sep acc s)"
proof (induction s arbitrary: acc)
  case Nil
  then show ?case by simp
next
  case (Cons c cs)
  show ?case
  proof (cases "prefix sep (c # cs)")
    case True
    have "split_acc sep [] (drop (length sep - 1) cs) \<noteq> []"
      by (rule split_acc_nonempty)
    then have "1 \<le> length (split_acc sep [] (drop (length sep - 1) cs))"
      by (cases "split_acc sep [] (drop (length sep - 1) cs)") auto
    with True show ?thesis by simp
  next
    case False
    with Cons.prems have "contains sep cs" by simp
    from Cons.IH [OF this Cons.prems(2)] False show ?thesis by simp
  qed
qed

lemma fenced_returns: "contains fence s \<Longrightarrow> fence \<noteq> [] \<Longrightarrow> \<exists>body. fenced s fence = Inr body"
proof -
  assume c: "contains fence s" and ne: "fence \<noteq> []"
  let ?parts = "split_acc fence [] s"
  have two: "2 \<le> length ?parts" using c ne by (rule split_acc_two)
  let ?parts' = "split_acc (u ''```'') [] (?parts ! 1)"
  have "?parts' \<noteq> []" by (rule split_acc_nonempty)
  then have one: "0 < length ?parts'" by simp
  from two one ne show ?thesis
    by (simp add: fenced_def split_py_def index_py_def bind_exn_def Let_def)
qed

lemma code_block_returns: "\<exists>body. code_block s = Inr body"
  unfolding code_block_def using fenced_returns by auto

subsection \<open>The default record, the fence step and the parser\<close>


lemma value_step_error:
  "value_step py st t = Inl x \<Longrightarrow> x = JSONDecodeError \<or> x = RecursionError \<or> x = ValueError"
  by (cases t) (auto split: if_splits)

lemma step_error:
  "step py m st t = Inl x \<Longrightarrow> x = JSONDecodeError \<or> x = RecursionError \<or> x = ValueError"
  by (cases m) (auto split: if_splits token.splits dest: value_step_error)

lemma run_error:
  "run py m st ts = Inl x \<Longrightarrow> x = JSONDecodeError \<or> x = RecursionError \<or> x = ValueError"
proof (induction ts arbitrary: m st)
  case Nil
  then show ?case by (cases m) auto
next
  case (Cons t ts)
  show ?case
  proof (cases "step py m st t")
    case (Inl y)
    with Cons.prems have "y = x" by simp
    with Inl show ?thesis by (auto dest: step_error)
  next
    case (Inr p)
    obtain m' st' where p: "p = (m', st')" by (cases p)
    from Cons.prems Inr p have "run py m' st' ts = Inl x" by simp
    then show ?thesis by (rule Cons.IH)
  qed
qed

lemma json_loads_error:
  "json_loads py s = Inl x \<Longrightarrow> x = JSONDecodeError \<or> x = RecursionError \<or> x = ValueError"
  unfolding json_loads_def by (rule run_error)

text \<open>
  C10.  For every string, the index \<open>[1]\<close> after a split is taken only where the
  delimiter occurs in the text, and there the split has at least two parts; so the
  fence step returns a string and \<open>extract_json_from_text\<close> raises no \<open>IndexError\<close>,
  whatever fences the text holds.
\<close>

theorem code_block_in_bounds:
  "(contains (u ''```json'') s \<longrightarrow>
      (\<exists>parts. split_py s (u ''```json'') = Inr parts \<and> 2 \<le> length parts
               \<and> index_py parts 1 = Inr (parts ! 1)))
   \<and> (contains (u ''```'') s \<longrightarrow>
      (\<exists>parts. split_py s (u ''```'') = Inr parts \<and> 2 \<le> length parts
               \<and> index_py parts 1 = Inr (parts ! 1)))
   \<and> (\<exists>body. code_block s = Inr body)
   \<and> fst (extract_json_from_text e text w) \<noteq> Inl IndexError"
proof -
  have a: "contains sep s \<Longrightarrow> sep \<noteq> [] \<Longrightarrow>
      \<exists>parts. split_py s sep = Inr parts \<and> 2 \<le> length parts \<and> index_py parts 1 = Inr (parts ! 1)"
    for sep
    using split_acc_two [of sep s "[]"] by (simp add: split_py_def index_py_def Let_def)
  obtain body where b: "code_block (strip text) = Inr body"
    using code_block_returns by blast
  have c: "fst (extract_json_from_text e text w) \<noteq> Inl IndexError"
    by (auto simp: extract_json_from_text_def try_extract_def b bind_exn_def
        split: sum.splits prod.splits dest: json_loads_error)
  show ?thesis using a [of "u ''```json''"] a [of "u ''```''"] code_block_returns [of s] c
    by simp
qed

theorem code_block_in_bounds_witness:
  "contains (u ''```json'') (u ''x```json{}'')
   \<and> contains (u ''```'') (u ''x```json{}'')
   \<and> code_block (u ''x```json{}'') = Inr (u ''{}'')
   \<and> split_py (u ''x```json{}'') (u ''```json'') = Inr [u ''x'', u ''{}'']"
  using code_block_in_bounds [of "u ''x```json{}''"]
  by (simp add: code_block_def fenced_def split_py_def index_py_def bind_exn_def strip_def
      isspace_def)

lemma default_value_world:
  "ticks w' = ticks w \<Longrightarrow>
   fst (create_default_roadmap e c r w') = fst (create_default_roadmap e c r w)"
  by (simp add: create_default_roadmap_def now_isoformat_def)

lemma default_ticks: "ticks (snd (create_default_roadmap e c r w)) = Suc (ticks w)"
  by (simp add: create_default_roadmap_def now_isoformat_def)

lemma extract_decoded:
  "code_block (strip text) = Inr cleaned \<Longrightarrow> json_loads (python e) (json_text cleaned) = Inr v \<Longrightarrow>
   extract_json_from_text e text w = (Inr v, w)"
  by (simp add: extract_json_from_text_def try_extract_def bind_exn_def)

lemma extract_failed:
  "code_block (strip text) = Inr cleaned \<Longrightarrow>
   json_loads (python e) (json_text cleaned) = Inl JSONDecodeError \<Longrightarrow>
   fst (extract_json_from_text e text w) =
     Inr (fst (create_default_roadmap e (u ''Unknown'') (u ''Unknown'') w))
   \<and> ticks (snd (extract_json_from_text e text w)) = Suc (ticks w)"
  by (auto simp: extract_json_from_text_def try_extract_def bind_exn_def print_def
      create_default_roadmap_def now_isoformat_def)

lemma extract_raised:
  "code_block (strip text) = Inr cleaned \<Longrightarrow> json_loads (python e) (json_text cleaned) = Inl x \<Longrightarrow>
   x \<noteq> JSONDecodeError \<Longrightarrow> extract_json_from_text e text w = (Inl x, w)"
  by (simp add: extract_json_from_text_def try_extract_def bind_exn_def)

text \<open>The definitions that evaluate the parser on a given text.\<close>

lemmas ev = extract_json_from_text_def try_extract_def code_block_def fenced_def split_py_def index_py_def bind_exn_def strip_def isspace_def json_text_def find_py_def rfind_py_def slice_py_def json_loads_def consc_def match_number_def match_int_def match_frac_def match_exp_def int_of_text_def nat_of_digits_def digit_def too_long_def sample_env_def sample_python_def

text \<open>
  C1, as amended.  For every text: where \<open>json.loads\<close> fails on the selected text with
  \<open>JSONDecodeError\<close>, \<open>extract_json_from_text\<close> returns the default record of
  \<open>"Unknown"\<close>, \<open>"Unknown"\<close>, which has the nine fields; where \<open>json.loads\<close> decodes the
  selected text to a JSON object, it returns that object as it is and prints nothing.
\<close>

theorem extract_json_from_text_outcome:
  "\<exists>cleaned. code_block (strip text) = Inr cleaned \<and>
     (json_loads (python e) (json_text cleaned) = Inl JSONDecodeError \<longrightarrow>
        fst (extract_json_from_text e text w) =
          Inr (fst (create_default_roadmap e (u ''Unknown'') (u ''Unknown'') w)) \<and>
        keys (fst (create_default_roadmap e (u ''Unknown'') (u ''Unknown'') w)) =
          map u [''company'', ''role'', ''rounds'', ''difficulty'', ''recommended_order'',
                 ''evidence'', ''generated_at'', ''version'', ''note'']) \<and>
     (\<forall>kvs. json_loads (python e) (json_text cleaned) = Inr (JObj kvs) \<longrightarrow>
        extract_json_from_text e text w = (Inr (JObj kvs), w))"
proof -
  obtain cleaned where c: "code_block (strip text) = Inr cleaned"
    using code_block_returns by blast
  have k: "keys (fst (create_default_roadmap e (u ''Unknown'') (u ''Unknown'') w)) =
            map u [''company'', ''role'', ''rounds'', ''difficulty'', ''recommended_order'',
                   ''evidence'', ''generated_at'', ''version'', ''note'']"
    by (simp add: create_default_roadmap_def now_isoformat_def)
  show ?thesis
    using c k extract_failed [OF c, of e w] extract_decoded [OF c, of e _ w]
    by (intro exI [of _ cleaned]) blast
qed

theorem extract_json_from_text_outcome_witness:
  \<open>json_loads sample_python (u ''Sorry, I cannot help.'') = Inl JSONDecodeError
   \<and> fst (extract_json_from_text (sample_env (Inl LLMError)) (u ''Sorry, I cannot help.'')
        (sample_world []))
     = Inr (fst (create_default_roadmap (sample_env (Inl LLMError)) (u ''Unknown'') (u ''Unknown'')
        (sample_world [])))
   \<and> json_loads sample_python (u ''{"a": 1}'') = Inr (JObj [(u ''a'', JInt 1)])
   \<and> extract_json_from_text (sample_env (Inl LLMError)) (u ''text {"a": 1} text'')
        (sample_world [])
     = (Inr (JObj [(u ''a'', JInt 1)]), sample_world [])\<close>
  using extract_json_from_text_outcome
          [of "u ''Sorry, I cannot help.''" "sample_env (Inl LLMError)" "sample_world []"]
        extract_json_from_text_outcome
          [of "u ''text {\"a\": 1} text''" "sample_env (Inl LLMError)" "sample_world []"]
  by (simp add: ev Let_def print_def create_default_roadmap_def now_isoformat_def)

text \<open>
  C1 as stated fails: a JSON array is decoded and returned as a list, and the empty
  object is returned with no field at all.
\<close>

theorem extract_json_from_text_list_counterexample:
  "fst (extract_json_from_text (sample_env (Inl LLMError)) (u ''[1, 2]'') (sample_world []))
     = Inr (JArr [JInt 1, JInt 2])
   \<and> fst (extract_json_from_text (sample_env (Inl LLMError)) (u ''{}'') (sample_world []))
     = Inr (JObj [])"
  by (simp add: ev)

lemma dict_get_set: "dict_get (dict_set kvs k v) k' = (if k' = k then Some v else dict_get kvs k')"
  by (induction kvs) auto

lemma keys_dict_set:
  "map fst (dict_set kvs k v) = (if k \<in> set (map fst kvs) then map fst kvs else map fst kvs @ [k])"
  by (induction kvs) (force simp: image_iff)+

lemma setitem_Inr:
  "setitem r k v = Inr r' \<Longrightarrow> \<exists>kvs. r = JObj kvs \<and> r' = JObj (dict_set kvs k v)"
  by (cases r) auto

lemma getitem_setitem:
  "setitem r k v = Inr r' \<Longrightarrow> getitem r' k' = (if k' = k then Some v else getitem r k')"
  by (auto dest!: setitem_Inr simp: dict_get_set)

subsection \<open>The search and the generated record\<close>

lemma get_py_exn: "get_py d k = Inl x \<Longrightarrow> is_Exception x"
  by (cases d) (auto simp: is_Exception_def)

lemma subscript_py_exn: "subscript_py d k = Inl x \<Longrightarrow> is_Exception x"
  by (cases d) (auto simp: is_Exception_def split: option.splits)

lemma first3_exn: "first3 d = Inl x \<Longrightarrow> is_Exception x"
  by (cases d) (auto simp: is_Exception_def)

lemma in_py_exn: "in_py k d = Inl x \<Longrightarrow> is_Exception x"
  by (cases d) (auto simp: is_Exception_def)

lemma bind_exn_Inl: "bind_exn m f = Inl x \<Longrightarrow> m = Inl x \<or> (\<exists>y. m = Inr y \<and> f y = Inl x)"
  by (cases m) (auto simp: bind_exn_def)

lemma topic_texts_exn: "topic_texts ts = Inl x \<Longrightarrow> is_Exception x"
proof (induction ts)
  case Nil
  then show ?case by simp
next
  case (Cons t ts)
  then show ?case
    by (auto dest!: bind_exn_Inl dest: in_py_exn subscript_py_exn split: if_splits)
qed

lemma strs_exn: "strs vs = Inl x \<Longrightarrow> is_Exception x"
  by (induction vs rule: strs.induct) (auto dest!: bind_exn_Inl simp: is_Exception_def)

lemma search_body_exn: "search_body e q = Inl x \<Longrightarrow> ddg e q = Inl x \<or> is_Exception x"
  unfolding search_body_def join_py_def Let_def
  by (auto dest!: bind_exn_Inl dest: get_py_exn first3_exn topic_texts_exn strs_exn
      split: if_splits)

lemma search_duckduckgo_world:
  "snd (search_duckduckgo e q w) = w'
   \<Longrightarrow> ticks w' = ticks w \<and> files w' = files w \<and> stdin w' = stdin w"
  by (auto simp: search_duckduckgo_def Let_def print_def split: sum.splits if_splits)

lemma search_duckduckgo_Inr:
  assumes "\<And>x. ddg e q = Inl x \<Longrightarrow> is_Exception x"
  shows "\<exists>s. fst (search_duckduckgo e q w) = Inr s"
proof (cases "search_body e q")
  case (Inl x)
  with search_body_exn [OF Inl] assms have "is_Exception x" by blast
  with Inl show ?thesis by (simp add: search_duckduckgo_def Let_def)
next
  case (Inr s)
  then show ?thesis by (simp add: search_duckduckgo_def Let_def)
qed

lemma search_each_Inr:
  assumes "\<And>q x. ddg e q = Inl x \<Longrightarrow> is_Exception x"
  shows "\<exists>rs. fst (search_each e qs acc w) = Inr rs"
proof (induction qs arbitrary: acc w)
  case Nil
  then show ?case by simp
next
  case (Cons q qs)
  obtain s where s: "fst (search_duckduckgo e q w) = Inr s"
    using search_duckduckgo_Inr [of e q w] assms by blast
  then obtain w1 where "search_duckduckgo e q w = (Inr s, w1)"
    by (cases "search_duckduckgo e q w") auto
  then show ?case using Cons.IH by simp
qed

lemma search_each_world:
  "ticks (snd (search_each e qs acc w)) = ticks w \<and> files (snd (search_each e qs acc w)) = files w
   \<and> stdin (snd (search_each e qs acc w)) = stdin w"
proof (induction qs arbitrary: acc w)
  case Nil
  then show ?case by simp
next
  case (Cons q qs)
  obtain r w1 where r: "search_duckduckgo e q w = (r, w1)"
    by (cases "search_duckduckgo e q w") auto
  with search_duckduckgo_world [of e q w w1]
  have w1: "ticks w1 = ticks w" "files w1 = files w" "stdin w1 = stdin w" by auto
  show ?case
  proof (cases r)
    case (Inl x)
    with r w1 Cons.IH show ?thesis by (simp add: print_def)
  next
    case (Inr s)
    with r w1 Cons.IH show ?thesis by simp
  qed
qed

lemma search_company_info_Inr:
  assumes "\<And>q x. ddg e q = Inl x \<Longrightarrow> is_Exception x"
  shows "\<exists>info. fst (search_company_info e company role w) = Inr info"
proof -
  let ?w1 = "print [Lit (0x1F50D # u '' Searching DuckDuckGo for '' @ company @ u '' '' @ role
                           @ u '' interview process...'')] w"
  obtain rs where "fst (search_each e (take 2 (queries company role)) [] ?w1) = Inr rs"
    using search_each_Inr [of e] assms by blast
  then obtain w2 where "search_each e (take 2 (queries company role)) [] ?w1 = (Inr rs, w2)"
    by (cases "search_each e (take 2 (queries company role)) [] ?w1") auto
  then show ?thesis by (simp add: search_company_info_def Let_def)
qed

lemma search_company_info_world:
  "ticks (snd (search_company_info e company role w)) = ticks w
   \<and> files (snd (search_company_info e company role w)) = files w
   \<and> stdin (snd (search_company_info e company role w)) = stdin w"
proof -
  let ?w1 = "print [Lit (0x1F50D # u '' Searching DuckDuckGo for '' @ company @ u '' '' @ role
                           @ u '' interview process...'')] w"
  have "ticks ?w1 = ticks w" "files ?w1 = files w" "stdin ?w1 = stdin w" by (simp_all add: print_def)
  with search_each_world [of e "take 2 (queries company role)" "[]" ?w1]
  show ?thesis
    by (auto simp: search_company_info_def Let_def split: prod.splits sum.splits)
qed

lemma try_extract_Inl:
  "try_extract py text = Inl x \<Longrightarrow> x = JSONDecodeError \<or> x = RecursionError \<or> x = ValueError"
proof -
  assume a: "try_extract py text = Inl x"
  obtain cleaned where c: "code_block (strip text) = Inr cleaned"
    using code_block_returns by blast
  with a have "json_loads py (json_text cleaned) = Inl x"
    by (simp add: try_extract_def bind_exn_def)
  then show ?thesis by (rule json_loads_error)
qed

lemma extract_of_failure:
  "try_extract (python e) text = Inl JSONDecodeError \<Longrightarrow>
   fst (extract_json_from_text e text w) =
     Inr (fst (create_default_roadmap e (u ''Unknown'') (u ''Unknown'') w))
   \<and> ticks (snd (extract_json_from_text e text w)) = Suc (ticks w)"
  by (simp add: extract_json_from_text_def print_def create_default_roadmap_def now_isoformat_def)

lemma extract_of_raise:
  "try_extract (python e) text = Inl x \<Longrightarrow> x \<noteq> JSONDecodeError \<Longrightarrow>
   extract_json_from_text e text w = (Inl x, w)"
  by (simp add: extract_json_from_text_def)

lemma extract_of_success:
  "try_extract (python e) text = Inr v \<Longrightarrow> extract_json_from_text e text w = (Inr v, w)"
  by (simp add: extract_json_from_text_def)

lemma stamp_fields:
  assumes "stamp roadmap company role now = Inr r"
  shows "getitem r (u ''company'') = Some (JStr company)"
    and "getitem r (u ''role'') = Some (JStr role)"
    and "getitem r (u ''generated_at'') = Some (JStr now)"
    and "getitem r (u ''version'') = Some (JStr (u ''1.0''))"
  using assms
  by (auto simp: stamp_def bind_exn_def getitem_setitem split: sum.splits)

lemma stamp_default:
  "stamp (fst (create_default_roadmap e c0 r0 w)) company role now = Inr r \<Longrightarrow>
   keys r = keys (fst (create_default_roadmap e company role w'))"
  by (auto simp: stamp_def bind_exn_def create_default_roadmap_def now_isoformat_def)

lemma stamp_default_Inr:
  "\<exists>r. stamp (fst (create_default_roadmap e c0 r0 w)) company role now = Inr r"
  by (simp add: stamp_def bind_exn_def create_default_roadmap_def now_isoformat_def)

lemma generate_roadmap_cases:
  assumes s: "fst (search_company_info e company role
       (print [Lit (0x1F310 # u '' Gathering company information from DuckDuckGo...'')]
         (print [Lit (0x1F3AF # u '' Generating roadmap for '' @ role @ u '' at '' @ company
                           @ u ''...'')] w))) = Inr info"
  shows "fst (generate_roadmap e company role jd w) =
     (case llm e (prompt_text company role jd info) of
        Inl x \<Rightarrow> if is_Exception x then Inr (fst (create_default_roadmap e company role w))
                 else Inl x
      | Inr text \<Rightarrow>
          (case try_extract (python e) text of
             Inr v \<Rightarrow> stamp v company role (clock e (ticks w))
           | Inl x \<Rightarrow>
               if x = JSONDecodeError then
                 stamp (fst (create_default_roadmap e (u ''Unknown'') (u ''Unknown'') w))
                   company role (clock e (Suc (ticks w)))
               else Inl x))"
proof -
  let ?w2 = "print [Lit (0x1F310 # u '' Gathering company information from DuckDuckGo...'')]
         (print [Lit (0x1F3AF # u '' Generating roadmap for '' @ role @ u '' at '' @ company
                           @ u ''...'')] w)"
  obtain w3 where w3: "search_company_info e company role ?w2 = (Inr info, w3)"
    using s by (cases "search_company_info e company role ?w2") auto
  have t3: "ticks w3 = ticks w"
    using search_company_info_world [of e company role ?w2] w3 by (simp add: print_def)
  let ?w5 = "(print [Lit (0x1F9E0 # u '' Generating roadmap with AI...'')] w3)
              \<lparr>net := net (print [Lit (0x1F9E0 # u '' Generating roadmap with AI...'')] w3)
                      @ [Ask (prompt_text company role jd info)]\<rparr>"
  have t5: "ticks ?w5 = ticks w" using t3 by (simp add: print_def)
  show ?thesis
  proof (cases "llm e (prompt_text company role jd info)")
    case (Inl x)
    then show ?thesis using w3 t3
      by (simp add: generate_roadmap_def Let_def print_def create_default_roadmap_def
          now_isoformat_def)
  next
    case (Inr reply)
    show ?thesis
    proof (cases "try_extract (python e) reply")
      case (Inl x)
      note x = this
      show ?thesis
      proof (cases "x = JSONDecodeError")
        case False
        from extract_of_raise [OF x False, of ?w5]
        show ?thesis using w3 Inr x False
          by (simp add: generate_roadmap_def Let_def)
      next
        case True
      with x have x': "try_extract (python e) reply = Inl JSONDecodeError" by simp
      from extract_of_failure [OF x', of ?w5]
      obtain w6 where w6: "extract_json_from_text e reply ?w5 =
          (Inr (fst (create_default_roadmap e (u ''Unknown'') (u ''Unknown'') ?w5)), w6)"
        and t6: "ticks w6 = Suc (ticks ?w5)"
        by (cases "extract_json_from_text e reply ?w5") auto
      have d: "fst (create_default_roadmap e (u ''Unknown'') (u ''Unknown'') ?w5)
          = fst (create_default_roadmap e (u ''Unknown'') (u ''Unknown'') w)"
        using t5 by (rule default_value_world)
      show ?thesis using w3 Inr x' w6 t6 t5 d
        by (simp add: generate_roadmap_def Let_def stamp_def bind_exn_def now_isoformat_def
            split: sum.splits)
      qed
    next
      case (Inr v)
      note v = this
      from extract_of_success [OF v, of ?w5]
      show ?thesis using w3 \<open>llm e (prompt_text company role jd info) = Inr reply\<close> v t5
        by (simp add: generate_roadmap_def Let_def stamp_def bind_exn_def now_isoformat_def
            split: sum.splits)
    qed
  qed
qed

lemmas run_defs = ev sample_env_def sample_world_def is_Exception_def stamp_def
  create_default_roadmap_def now_isoformat_def

text \<open>
  C3, as amended.  When decoding the reply fails with \<open>JSONDecodeError\<close>, the parser
  returns the default record; and when the search raises nothing but exceptions and the
  LLM answers with that reply, \<open>generate_roadmap\<close> returns a record with the fields of the
  default record whose company and role are the caller's.
\<close>

theorem malformed_response_gives_default:
  assumes "try_extract (python e) reply = Inl JSONDecodeError"
    and "\<And>q y. ddg e q = Inl y \<Longrightarrow> is_Exception y"
    and "\<And>p. llm e p = Inr reply"
  shows "fst (extract_json_from_text e reply w) =
           Inr (fst (create_default_roadmap e (u ''Unknown'') (u ''Unknown'') w))
     \<and> (\<exists>r. fst (generate_roadmap e company role jd w) = Inr r
           \<and> keys r = keys (fst (create_default_roadmap e company role w))
           \<and> getitem r (u ''company'') = Some (JStr company)
           \<and> getitem r (u ''role'') = Some (JStr role))"
proof -
  obtain info where "fst (search_company_info e company role
       (print [Lit (0x1F310 # u '' Gathering company information from DuckDuckGo...'')]
         (print [Lit (0x1F3AF # u '' Generating roadmap for '' @ role @ u '' at '' @ company
                           @ u ''...'')] w))) = Inr info"
    using search_company_info_Inr [of e] assms(2) by blast
  from generate_roadmap_cases [OF this, of jd] assms(1,3)
  have g: "fst (generate_roadmap e company role jd w) =
      stamp (fst (create_default_roadmap e (u ''Unknown'') (u ''Unknown'') w))
        company role (clock e (Suc (ticks w)))"
    by simp
  obtain r where r: "stamp (fst (create_default_roadmap e (u ''Unknown'') (u ''Unknown'') w))
        company role (clock e (Suc (ticks w))) = Inr r"
    using stamp_default_Inr by blast
  from stamp_fields [OF r] stamp_default [OF r] g r extract_of_failure [OF assms(1)]
  show ?thesis by simp
qed

theorem malformed_response_gives_default_witness:
  "try_extract sample_python (u ''Sorry, I cannot help.'') = Inl JSONDecodeError
   \<and> fst (extract_json_from_text (sample_env (Inr (u ''Sorry, I cannot help.'')))
            (u ''Sorry, I cannot help.'') (sample_world []))
       = Inr (fst (create_default_roadmap (sample_env (Inr (u ''Sorry, I cannot help.'')))
                     (u ''Unknown'') (u ''Unknown'') (sample_world [])))
   \<and> (\<exists>r. fst (generate_roadmap (sample_env (Inr (u ''Sorry, I cannot help.'')))
                  (u ''Acme'') (u ''SDE'') (u ''Build things'') (sample_world [])) = Inr r
         \<and> keys r = map u [''company'', ''role'', ''rounds'', ''difficulty'',
                ''recommended_order'', ''evidence'', ''generated_at'', ''version'', ''note'']
         \<and> getitem r (u ''company'') = Some (JStr (u ''Acme''))
         \<and> getitem r (u ''role'') = Some (JStr (u ''SDE'')))"
proof -
  have p: "python (sample_env (Inr (u ''Sorry, I cannot help.''))) = sample_python"
    by (simp add: sample_env_def)
  have t: "try_extract sample_python (u ''Sorry, I cannot help.'') = Inl JSONDecodeError"
    by (simp add: ev)
  have d: "\<And>q y. ddg (sample_env (Inr (u ''Sorry, I cannot help.''))) q = Inl y \<Longrightarrow> is_Exception y"
    by (simp add: sample_env_def is_Exception_def)
  have l: "\<And>p. llm (sample_env (Inr (u ''Sorry, I cannot help.''))) p = Inr (u ''Sorry, I cannot help.'')"
    by (simp add: sample_env_def)
  have k: "keys (fst (create_default_roadmap (sample_env (Inr (u ''Sorry, I cannot help.'')))
        (u ''Acme'') (u ''SDE'') (sample_world []))) =
      map u [''company'', ''role'', ''rounds'', ''difficulty'',
                ''recommended_order'', ''evidence'', ''generated_at'', ''version'', ''note'']"
    by (simp add: create_default_roadmap_def now_isoformat_def)
  from malformed_response_gives_default [OF t [folded p] d l, where w = "sample_world []"
      and company = "u ''Acme''" and role = "u ''SDE''" and jd = "u ''Build things''"] t k
  show ?thesis by simp
qed

lemma contains_set: "contains sub s \<Longrightarrow> set sub \<subseteq> set s"
proof (induction s)
  case Nil
  then show ?case by simp
next
  case (Cons c cs)
  from Cons.prems have "prefix sub (c # cs) \<or> contains sub cs" by simp
  then show ?case
  proof
    assume "prefix sub (c # cs)"
    then show ?thesis by (rule set_mono_prefix)
  next
    assume "contains sub cs"
    from Cons.IH [OF this] show ?thesis by auto
  qed
qed

lemma find_at_absent: "\<not> contains sub s \<Longrightarrow> find_at sub s i = - 1"
  by (induction s arbitrary: i) auto

lemma lex_brackets: "lex (replicate n 0x5B) = replicate n TLBrack"
  by (induction n) simp_all

lemma run_brackets:
  "run py Elems0 st (replicate n TLBrack) =
     (if 0 < n \<and> decode_depth py \<le> length st + n then Inl RecursionError
      else Inl JSONDecodeError)"
  by (induction n arbitrary: st) auto

lemma json_loads_brackets:
  "decode_depth py \<le> n \<Longrightarrow> json_loads py (replicate (Suc n) 0x5B) = Inl RecursionError"
  by (simp add: json_loads_def lex_brackets run_brackets del: replicate.simps)
    (simp add: run_brackets)

lemma try_extract_brackets:
  assumes "decode_depth py \<le> n"
  shows "try_extract py (replicate (Suc n) 0x5B) = Inl RecursionError"
proof -
  let ?s = "replicate (Suc n) (0x5B :: nat)"
  have d: "dropWhile isspace (replicate m (0x5B :: nat)) = replicate m 0x5B" for m
    by (cases m) (simp_all add: isspace_def)
  have s: "strip ?s = ?s"
    unfolding strip_def d rev_replicate by (rule refl)
  have a: "\<not> contains (u ''```json'') ?s" and b: "\<not> contains (u ''```'') ?s"
    and c: "\<not> contains (u ''{'') ?s"
    by (auto dest!: contains_set)
  from a b have cb: "code_block ?s = Inr ?s" by (simp add: code_block_def)
  from c have jt: "json_text ?s = ?s"
    by (simp add: json_text_def find_py_def find_at_absent Let_def del: replicate.simps)
  show ?thesis
    unfolding try_extract_def s cb bind_exn_def
    using json_loads_brackets [OF assms] by (simp add: jt del: replicate.simps)
qed

text \<open>
  C3 as stated fails for a reply that \<open>json.loads\<close> refuses with another exception than
  \<open>JSONDecodeError\<close>: on a thousand opening brackets it raises \<open>RecursionError\<close>, which
  the parser does not catch, and \<open>generate_roadmap\<close> raises it too.
\<close>

theorem malformed_response_gives_default_counterexample:
  "try_extract sample_python (replicate 1000 0x5B) = Inl RecursionError
   \<and> fst (extract_json_from_text (sample_env (Inr (replicate 1000 0x5B))) (replicate 1000 0x5B)
          (sample_world [])) = Inl RecursionError
   \<and> fst (generate_roadmap (sample_env (Inr (replicate 1000 0x5B))) (u ''Acme'') (u ''SDE'')
          (u ''Build things'') (sample_world [])) = Inl RecursionError"
proof -
  let ?e = "sample_env (Inr (replicate 1000 0x5B))"
  have p: "python ?e = sample_python"
    by (simp add: sample_env_def)
  have n: "replicate 1000 (0x5B :: nat) = replicate (Suc 999) 0x5B"
    by (simp del: replicate.simps)
  have t: "try_extract sample_python (replicate 1000 0x5B) = Inl RecursionError"
    unfolding n by (rule try_extract_brackets) (simp add: sample_python_def)
  have x: "fst (extract_json_from_text ?e (replicate 1000 0x5B) (sample_world []))
      = Inl RecursionError"
    using extract_of_raise [of ?e "replicate 1000 0x5B" RecursionError "sample_world []"] t p
    by (simp)
  have "\<And>q y. ddg ?e q = Inl y \<Longrightarrow> is_Exception y"
    by (simp add: sample_env_def is_Exception_def)
  then obtain info where "fst (search_company_info ?e (u ''Acme'') (u ''SDE'')
       (print [Lit (0x1F310 # u '' Gathering company information from DuckDuckGo...'')]
         (print [Lit (0x1F3AF # u '' Generating roadmap for '' @ u ''SDE'' @ u '' at ''
                           @ u ''Acme'' @ u ''...'')] (sample_world [])))) = Inr info"
    using search_company_info_Inr [of ?e] by blast
  from generate_roadmap_cases [OF this, of "u ''Build things''"]
  have g: "fst (generate_roadmap ?e (u ''Acme'') (u ''SDE'') (u ''Build things'') (sample_world []))
      = Inl RecursionError"
    using t p by (simp add: sample_env_def)
  from t x g show ?thesis by blast
qed

text \<open>
  C4.  Every record \<open>generate_roadmap\<close> returns, on the path through the parser and on
  the path of a failed LLM call, has the caller's company and role, version \<open>"1.0"\<close> and
  a reading of the clock as \<open>generated_at\<close>, whatever the reply of the LLM holds for them.
\<close>

theorem generate_roadmap_system_fields:
  assumes "fst (generate_roadmap e company role jd w) = Inr r"
  shows "getitem r (u ''company'') = Some (JStr company)
     \<and> getitem r (u ''role'') = Some (JStr role)
     \<and> getitem r (u ''version'') = Some (JStr (u ''1.0''))
     \<and> (getitem r (u ''generated_at'') = Some (JStr (clock e (ticks w)))
        \<or> getitem r (u ''generated_at'') = Some (JStr (clock e (Suc (ticks w)))))"
proof -
  let ?w2 = "print [Lit (0x1F310 # u '' Gathering company information from DuckDuckGo...'')]
         (print [Lit (0x1F3AF # u '' Generating roadmap for '' @ role @ u '' at '' @ company
                           @ u ''...'')] w)"
  obtain s w3 where s: "search_company_info e company role ?w2 = (s, w3)"
    by (cases "search_company_info e company role ?w2") auto
  show ?thesis
  proof (cases s)
    case (Inl x)
    with s assms show ?thesis by (simp add: generate_roadmap_def Let_def)
  next
    case (Inr info)
    with s have "fst (search_company_info e company role ?w2) = Inr info" by simp
    note c = generate_roadmap_cases [OF this, of jd]
    show ?thesis
    proof (cases "llm e (prompt_text company role jd info)")
      case (Inl x)
      with c assms have "r = fst (create_default_roadmap e company role w)"
        by (simp split: if_splits)
      then show ?thesis by (simp add: create_default_roadmap_def now_isoformat_def)
    next
      case (Inr reply)
      show ?thesis
      proof (cases "try_extract (python e) reply")
        case (Inl x)
        with c Inr assms
        have "stamp (fst (create_default_roadmap e (u ''Unknown'') (u ''Unknown'') w))
                 company role (clock e (Suc (ticks w))) = Inr r" by (simp split: if_splits)
        from stamp_fields [OF this] show ?thesis by simp
      next
        case (Inr v)
        with c \<open>llm e (prompt_text company role jd info) = Inr reply\<close> assms
        have "stamp v company role (clock e (ticks w)) = Inr r" by simp
        from stamp_fields [OF this] show ?thesis by simp
      qed
    qed
  qed
qed

theorem generate_roadmap_system_fields_witness:
  "fst (generate_roadmap (sample_env (Inr hostile_reply)) (u ''Acme'') (u ''SDE'')
          (u ''Build things'') (sample_world []))
     = Inr (JObj [(u ''company'', JStr (u ''Acme'')), (u ''role'', JStr (u ''SDE'')),
                  (u ''generated_at'', JStr (u ''2024-05-01T10:00:00'')),
                  (u ''version'', JStr (u ''1.0'')), (u ''difficulty'', JStr (u ''Hard''))])
   \<and> getitem (JObj [(u ''company'', JStr (u ''Acme'')), (u ''role'', JStr (u ''SDE'')),
                  (u ''generated_at'', JStr (u ''2024-05-01T10:00:00'')),
                  (u ''version'', JStr (u ''1.0'')), (u ''difficulty'', JStr (u ''Hard''))])
        (u ''company'') = Some (JStr (u ''Acme''))"
proof -
  let ?e = "sample_env (Inr hostile_reply)"
  let ?w2 = "print [Lit (0x1F310 # u '' Gathering company information from DuckDuckGo...'')]
         (print [Lit (0x1F3AF # u '' Generating roadmap for '' @ u ''SDE'' @ u '' at '' @ u ''Acme''
                           @ u ''...'')] (sample_world []))"
  have "\<And>q y. ddg ?e q = Inl y \<Longrightarrow> is_Exception y"
    by (simp add: sample_env_def is_Exception_def)
  then obtain info where "fst (search_company_info ?e (u ''Acme'') (u ''SDE'') ?w2) = Inr info"
    using search_company_info_Inr [of ?e] by blast
  from generate_roadmap_cases [OF this, of "u ''Build things''"]
  have g: "fst (generate_roadmap ?e (u ''Acme'') (u ''SDE'') (u ''Build things'') (sample_world []))
     = Inr (JObj [(u ''company'', JStr (u ''Acme'')), (u ''role'', JStr (u ''SDE'')),
                  (u ''generated_at'', JStr (u ''2024-05-01T10:00:00'')),
                  (u ''version'', JStr (u ''1.0'')), (u ''difficulty'', JStr (u ''Hard''))])"
    by (simp add: run_defs hostile_reply_def)
  from generate_roadmap_system_fields [OF g] g show ?thesis by simp
qed

lemma search_duckduckgo_returned:
  "search_body e q = Inr s \<Longrightarrow>
   search_duckduckgo e q w = (Inr s, w\<lparr>net := net w @ [Search q]\<rparr>)"
  by (simp add: search_duckduckgo_def Let_def)

lemma search_duckduckgo_failed:
  "search_body e q = Inl x \<Longrightarrow> is_Exception x \<Longrightarrow>
   fst (search_duckduckgo e q w) = Inr search_unavailable
   \<and> net (snd (search_duckduckgo e q w)) = net w @ [Search q]"
  by (simp add: search_duckduckgo_def Let_def print_def)

text \<open>
  C6, as amended.  \<open>search_company_info\<close> sends no query but the first two of the four,
  in their order: both of them, or the first alone when the first search is interrupted
  (a \<open>KeyboardInterrupt\<close> leaves the method).  When both searches return, it joins with
  a space those results that are not empty and do not hold the words
  \<open>didn't return specific results\<close> and cuts the text at 2000 characters, or gives the
  standard paragraph when no result is kept.
\<close>

theorem search_company_info_first_two:
  "(let q1 = company @ u '' '' @ role @ u '' interview process'';
        q2 = company @ u '' technical interview questions '' @ role;
        r = search_company_info e company role w
    in net (snd r) =
         net w @ (if search_body e q1 = Inl KeyboardInterrupt then [Search q1]
                  else [Search q1, Search q2])
     \<and> (\<forall>s1 s2. search_body e q1 = Inr s1 \<longrightarrow> search_body e q2 = Inr s2 \<longrightarrow>
          fst r =
            Inr (let kept = filter (\<lambda>s. s \<noteq> []
                                      \<and> \<not> contains (u ''didn't return specific results'') s)
                              [s1, s2]
                 in if kept = [] then standard_process company role
                    else take 2000 (join (u '' '') kept))))"
proof -
  let ?q1 = "company @ u '' '' @ role @ u '' interview process''"
  let ?q2 = "company @ u '' technical interview questions '' @ role"
  let ?w1 = "print [Lit (0x1F50D # u '' Searching DuckDuckGo for '' @ company @ u '' '' @ role
                           @ u '' interview process...'')] w"
  have one: "net (snd (search_duckduckgo e q v)) = net v @ [Search q]" for q v
    by (simp add: search_duckduckgo_def Let_def print_def split: sum.splits)
  have interrupted: "fst (search_duckduckgo e q v) = Inl x \<longleftrightarrow>
      search_body e q = Inl x \<and> x = KeyboardInterrupt" for q v x
    by (auto simp: search_duckduckgo_def Let_def is_Exception_def split: sum.splits)
  obtain r1 v1 where r1: "search_duckduckgo e ?q1 ?w1 = (r1, v1)"
    by (cases "search_duckduckgo e ?q1 ?w1") auto
  with one [of ?q1 ?w1] have n1: "net v1 = net w @ [Search ?q1]" by (simp add: print_def)
  have sent: "net (snd (search_company_info e company role w)) =
         net w @ (if search_body e ?q1 = Inl KeyboardInterrupt then [Search ?q1]
                  else [Search ?q1, Search ?q2])"
  proof (cases r1)
    case (Inl x)
    with r1 interrupted [of ?q1 ?w1 x] have x: "search_body e ?q1 = Inl KeyboardInterrupt"
      and k: "x = KeyboardInterrupt" by auto
    from r1 Inl k n1 x show ?thesis
      by (simp add: search_company_info_def queries_def Let_def is_Exception_def)
  next
    case (Inr s)
    with r1 interrupted [of ?q1 ?w1 KeyboardInterrupt]
    have x: "search_body e ?q1 \<noteq> Inl KeyboardInterrupt" by auto
    let ?acc = "if s \<noteq> [] \<and> \<not> contains (u ''didn't return specific results'') s then [s] else []"
    obtain r2 v2 where r2: "search_duckduckgo e ?q2 v1 = (r2, v2)"
      by (cases "search_duckduckgo e ?q2 v1") auto
    with one [of ?q2 v1] n1 have n2: "net v2 = net w @ [Search ?q1, Search ?q2]" by simp
    from r1 Inr r2 n2 x show ?thesis
      by (cases r2)
        (auto simp: search_company_info_def queries_def Let_def print_def split: if_splits)
  qed
  have both: "fst (search_company_info e company role w) =
            Inr (let kept = filter (\<lambda>s. s \<noteq> []
                                      \<and> \<not> contains (u ''didn't return specific results'') s)
                              [s1, s2]
                 in if kept = [] then standard_process company role
                    else take 2000 (join (u '' '') kept))"
    if "search_body e ?q1 = Inr s1" "search_body e ?q2 = Inr s2" for s1 s2
    using that
    by (simp add: search_company_info_def queries_def Let_def search_duckduckgo_returned print_def)
  from sent both show ?thesis by (simp add: Let_def)
qed

lemmas search_defs = search_body_def get_py.simps bind_exn_def join_py_def sample_env_def
  sample_world_def is_Exception_def search_unavailable_def

theorem search_company_info_first_two_witness:
  "search_body answering_env (u ''Acme SDE interview process'') = Inr (u ''Acme hires engineers.'')
   \<and> fst (search_company_info answering_env (u ''Acme'') (u ''SDE'') (sample_world []))
       = Inr (u ''Acme hires engineers. Acme hires engineers.'')
   \<and> net (snd (search_company_info answering_env (u ''Acme'') (u ''SDE'') (sample_world [])))
       = [Search (u ''Acme SDE interview process''),
          Search (u ''Acme technical interview questions SDE'')]"
proof -
  have a: "search_body answering_env (u ''Acme'' @ u '' '' @ u ''SDE'' @ u '' interview process'')
      = Inr (u ''Acme hires engineers.'')"
    by (simp add: answering_env_def search_defs)
  have b: "search_body answering_env (u ''Acme'' @ u '' technical interview questions '' @ u ''SDE'')
      = Inr (u ''Acme hires engineers.'')"
    by (simp add: answering_env_def search_defs)
  from search_company_info_first_two [of "u ''Acme''" "u ''SDE''" answering_env "sample_world []"]
    a b
  show ?thesis by (simp add: sample_world_def Let_def)
qed

text \<open>
  C6 as stated fails where both searches raise: the failure sentence of
  \<open>search_duckduckgo\<close> is kept as a result, so the company information is that sentence
  twice, not once.
\<close>

theorem search_company_info_failure_counterexample:
  "fst (search_company_info (sample_env (Inl LLMError)) (u ''Acme'') (u ''SDE'') (sample_world []))
     = Inr (search_unavailable @ u '' '' @ search_unavailable)
   \<and> fst (search_company_info (sample_env (Inl LLMError)) (u ''Acme'') (u ''SDE'') (sample_world []))
     \<noteq> Inr search_unavailable"
  by (simp add: search_company_info_def queries_def Let_def search_duckduckgo_def print_def
      search_defs)

text \<open>
  C7.  When the request raises nothing but exceptions, \<open>search_duckduckgo\<close> returns a
  string for every query: the result of the body of its \<open>try\<close>, or the fixed sentence
  when that body raises, whether in the request or on a response of the wrong shape; and
  \<open>search_company_info\<close> returns as well.
\<close>

theorem search_duckduckgo_absorbs:
  assumes "\<And>q x. ddg e q = Inl x \<Longrightarrow> is_Exception x"
  shows "(\<exists>s. fst (search_duckduckgo e query w) = Inr s)
     \<and> (case search_body e query of
          Inl x \<Rightarrow> fst (search_duckduckgo e query w) = Inr search_unavailable
        | Inr s \<Rightarrow> fst (search_duckduckgo e query w) = Inr s)
     \<and> (\<exists>info. fst (search_company_info e company role w) = Inr info)"
proof -
  have a: "\<exists>s. fst (search_duckduckgo e query w) = Inr s"
    using search_duckduckgo_Inr [of e query w] assms by blast
  have b: "case search_body e query of
          Inl x \<Rightarrow> fst (search_duckduckgo e query w) = Inr search_unavailable
        | Inr s \<Rightarrow> fst (search_duckduckgo e query w) = Inr s"
  proof (cases "search_body e query")
    case (Inl x)
    with search_body_exn [OF Inl] assms have "is_Exception x" by blast
    with Inl show ?thesis by (simp add: search_duckduckgo_def Let_def)
  next
    case (Inr s)
    then show ?thesis by (simp add: search_duckduckgo_def Let_def)
  qed
  have c: "\<exists>info. fst (search_company_info e company role w) = Inr info"
    using search_company_info_Inr [of e] assms by blast
  from a b c show ?thesis by simp
qed

theorem search_duckduckgo_absorbs_witness:
  "search_body (sample_env (Inl LLMError)) (u ''Acme'') = Inl RequestException
   \<and> fst (search_duckduckgo (sample_env (Inl LLMError)) (u ''Acme'') (sample_world []))
       = Inr search_unavailable
   \<and> search_body malformed_env (u ''Acme'') = Inl AttributeError
   \<and> fst (search_duckduckgo malformed_env (u ''Acme'') (sample_world [])) = Inr search_unavailable"
proof -
  have a: "\<And>q x. ddg (sample_env (Inl LLMError)) q = Inl x \<Longrightarrow> is_Exception x"
    by (simp add: sample_env_def is_Exception_def)
  have b: "\<And>q x. ddg malformed_env q = Inl x \<Longrightarrow> is_Exception x"
    by (simp add: malformed_env_def sample_env_def)
  have c: "search_body (sample_env (Inl LLMError)) (u ''Acme'') = Inl RequestException"
    by (simp add: search_defs)
  have d: "search_body malformed_env (u ''Acme'') = Inl AttributeError"
    by (simp add: malformed_env_def search_defs)
  from search_duckduckgo_absorbs [where e = "sample_env (Inl LLMError)" and query = "u ''Acme''"
      and w = "sample_world []", OF a]
    search_duckduckgo_absorbs [where e = malformed_env and query = "u ''Acme''"
      and w = "sample_world []", OF b] c d
  show ?thesis by simp
qed

subsection \<open>The slice between the braces\<close>

lemma find_at_first:
  "c \<notin> set pre \<Longrightarrow> find_at [c] (pre @ c # rest) i = int (i + length pre)"
  by (induction pre arbitrary: i) auto

lemma rfind_at_none: "c \<notin> set post \<Longrightarrow> rfind_at [c] post i found = found"
  by (induction post arbitrary: i found) auto

lemma rfind_at_last:
  "c \<notin> set post \<Longrightarrow> rfind_at [c] (xs @ c # post) i found = int (i + length xs)"
  by (induction xs arbitrary: i found) (auto simp: rfind_at_none)

lemma slice_py_middle:
  "slice_py (pre @ obj @ post) (int (length pre)) (int (length pre + length obj)) = obj"
  by (simp add: slice_py_def Let_def)

lemma json_text_object:
  assumes "0x7B \<notin> set pre" and "0x7D \<notin> set post"
  shows "json_text (pre @ 0x7B # mid @ 0x7D # post) = 0x7B # mid @ [0x7D]"
proof -
  let ?s = "pre @ 0x7B # mid @ 0x7D # post"
  have f: "find_py ?s [0x7B] = int (length pre)"
    using find_at_first [OF assms(1), of "mid @ 0x7D # post" 0] by (simp add: find_py_def)
  have "rfind_at [0x7D] ((pre @ 0x7B # mid) @ 0x7D # post) 0 (- 1) = int (0 + length (pre @ 0x7B # mid))"
    using assms(2) by (rule rfind_at_last)
  then have r: "rfind_py ?s [0x7D] + 1 = int (length pre + length (0x7B # mid @ [0x7D]))"
    by (simp add: rfind_py_def)
  have "slice_py (pre @ (0x7B # mid @ [0x7D]) @ post) (int (length pre))
      (int (length pre + length (0x7B # mid @ [0x7D]))) = 0x7B # mid @ [0x7D]"
    by (rule slice_py_middle)
  then have s: "slice_py ?s (int (length pre)) (int (length pre + length (0x7B # mid @ [0x7D])))
      = 0x7B # mid @ [0x7D]"
    by simp
  have "json_text ?s =
      (if find_py ?s [0x7B] \<noteq> - 1 \<and> rfind_py ?s [0x7D] + 1 \<noteq> 0
       then slice_py ?s (find_py ?s [0x7B]) (rfind_py ?s [0x7D] + 1) else ?s)"
    by (simp add: json_text_def Let_def)
  also have "\<dots> = 0x7B # mid @ [0x7D]"
    unfolding f r s by simp
  finally show ?thesis .
qed

subsection \<open>Fences\<close>

lemma split_acc_shift:
  "split_acc sep acc s = (rev acc @ hd (split_acc sep [] s)) # tl (split_acc sep [] s)"
proof (induction s arbitrary: acc)
  case Nil
  then show ?case by simp
next
  case (Cons c cs)
  show ?case
  proof (cases "prefix sep (c # cs)")
    case True
    then show ?thesis by simp
  next
    case False
    with Cons.IH [of "c # acc"] Cons.IH [of "[c]"] show ?thesis by simp
  qed
qed

lemma split_acc_skip:
  "hd sep \<notin> set pre \<Longrightarrow> sep \<noteq> [] \<Longrightarrow>
   split_acc sep acc (pre @ s) = split_acc sep (rev pre @ acc) s"
proof (induction pre arbitrary: acc)
  case Nil
  then show ?case by simp
next
  case (Cons c pre)
  from Cons.prems have n: "\<not> prefix sep (c # pre @ s)"
    by (cases sep) auto
  from Cons.prems have "hd sep \<notin> set pre" by simp
  from Cons.IH [OF this Cons.prems(2), of "c # acc"] n show ?case by simp
qed

lemma split_acc_at:
  "sep \<noteq> [] \<Longrightarrow> split_acc sep acc (sep @ rest) = rev acc # split_acc sep [] rest"
  by (cases sep) auto

lemma split_acc_absent: "\<not> contains sep s \<Longrightarrow> split_acc sep acc s = [rev acc @ s]"
  by (induction s arbitrary: acc) auto

lemma contains_here: "contains sep (sep @ rest)"
proof (cases "sep @ rest")
  case Nil
  then show ?thesis by simp
next
  case (Cons a l)
  have "prefix sep (sep @ rest)" by simp
  then have "prefix sep (a # l)" unfolding Cons .
  then show ?thesis unfolding Cons by simp
qed

lemma contains_at: "contains sep (pre @ sep @ rest)"
  by (induction pre) (simp_all add: contains_here)

lemma contains_prefix: "prefix a b \<Longrightarrow> contains b s \<Longrightarrow> contains a s"
proof (induction s)
  case Nil
  then show ?case by simp
next
  case (Cons c cs)
  then show ?case by (auto dest: prefix_order.trans)
qed

lemma split_acc_free: "hd sep \<notin> set s \<Longrightarrow> sep \<noteq> [] \<Longrightarrow> split_acc sep acc s = [rev acc @ s]"
  using split_acc_skip [of sep s acc "[]"] by simp

lemma split_acc_fence:
  assumes "hd sep \<notin> set pre" and "sep \<noteq> []"
  shows "split_acc sep acc (pre @ sep @ rest) = (rev acc @ pre) # split_acc sep [] rest"
  using split_acc_skip [OF assms, of acc "sep @ rest"] split_acc_at [OF assms(2)] by simp

text \<open>The text up to the closing fence, cut once more at the next \<open>```json\<close>.\<close>

lemma json_piece:
  assumes "0x60 \<notin> set body" and "\<not> prefix [0x60] post"
  shows "\<exists>x. hd (split_acc (u ''```json'') [] (body @ u ''```'' @ post)) = body @ x
             \<and> (x = [] \<or> prefix (u ''```'') x)"
proof -
  have "split_acc (u ''```json'') [] (body @ u ''```'' @ post)
      = split_acc (u ''```json'') (rev body) (u ''```'' @ post)"
    using split_acc_skip [of "u ''```json''" body "[]" "u ''```'' @ post"] assms(1) by simp
  moreover have "\<exists>x. hd (split_acc (u ''```json'') (rev body) (u ''```'' @ post)) = body @ x
             \<and> (x = [] \<or> prefix (u ''```'') x)"
  proof (cases "prefix (u ''json'') post")
    case True
    then show ?thesis by simp
  next
    case False
    have "split_acc (u ''```json'') (rev body) (u ''```'' @ post)
        = split_acc (u ''```json'') (rev (body @ u ''```'')) post"
      using False assms(2) by (cases post) auto
    also have "\<dots> = (body @ u ''```'' @ hd (split_acc (u ''```json'') [] post))
        # tl (split_acc (u ''```json'') [] post)"
      using split_acc_shift [of "u ''```json''" "rev (body @ u ''```'')" post] by simp
    finally show ?thesis by simp
  qed
  ultimately show ?thesis by simp
qed

lemma first_piece:
  assumes "0x60 \<notin> set body" and "x = [] \<or> prefix (u ''```'') x"
  shows "hd (split_acc (u ''```'') [] (body @ x)) = body"
proof (cases "x = []")
  case True
  with split_acc_free [of "u ''```''" body "[]"] assms(1) show ?thesis by simp
next
  case False
  with assms(2) obtain y where "x = u ''```'' @ y" by (auto simp: prefix_def)
  with split_acc_fence [of "u ''```''" body "[]" y] assms(1) show ?thesis by simp
qed

lemma fenced_at:
  assumes "0x60 \<notin> set pre" and "hd fence = 0x60" and "fence \<noteq> []"
  shows "fenced (pre @ fence @ rest) fence
       = Inr (strip (hd (split_acc (u ''```'') [] (hd (split_acc fence [] rest)))))"
proof -
  have "split_acc fence [] (pre @ fence @ rest) = pre # split_acc fence [] rest"
    using split_acc_fence [of fence pre "[]" rest] assms by simp
  moreover have "split_acc fence [] rest \<noteq> []" by (rule split_acc_nonempty)
  moreover have "split_acc (u ''```'') [] (hd (split_acc fence [] rest)) \<noteq> []"
    by (rule split_acc_nonempty)
  ultimately show ?thesis using assms(3)
    by (simp add: fenced_def split_py_def index_py_def bind_exn_def hd_conv_nth)
qed

lemma code_block_json_fence:
  assumes "0x60 \<notin> set pre" and "0x60 \<notin> set body" and "\<not> prefix [0x60] post"
  shows "code_block (pre @ u ''```json'' @ body @ u ''```'' @ post) = Inr (strip body)"
proof -
  obtain x where x: "hd (split_acc (u ''```json'') [] (body @ u ''```'' @ post)) = body @ x"
    "x = [] \<or> prefix (u ''```'') x"
    using json_piece [OF assms(2,3)] by blast
  have "fenced (pre @ u ''```json'' @ body @ u ''```'' @ post) (u ''```json'')
      = Inr (strip (hd (split_acc (u ''```'') [] (body @ x))))"
    using fenced_at [of pre "u ''```json''" "body @ u ''```'' @ post"] assms(1) x(1) by simp
  moreover have "contains (u ''```json'') (pre @ u ''```json'' @ body @ u ''```'' @ post)"
    by (rule contains_at)
  ultimately show ?thesis
    using first_piece [OF assms(2) x(2)] by (simp add: code_block_def)
qed

lemma code_block_plain_fence:
  assumes "0x60 \<notin> set pre" and "0x60 \<notin> set body"
    and "\<not> contains (u ''```json'') (pre @ u ''```'' @ body @ u ''```'' @ post)"
  shows "code_block (pre @ u ''```'' @ body @ u ''```'' @ post) = Inr (strip body)"
proof -
  have "hd (split_acc (u ''```'') [] (body @ u ''```'' @ post)) = body"
    using split_acc_fence [of "u ''```''" body "[]" post] assms(2) by simp
  then have "fenced (pre @ u ''```'' @ body @ u ''```'' @ post) (u ''```'')
      = Inr (strip (hd (split_acc (u ''```'') [] body)))"
    using fenced_at [of pre "u ''```''" "body @ u ''```'' @ post"] assms(1) by simp
  moreover have "contains (u ''```'') (pre @ u ''```'' @ body @ u ''```'' @ post)"
    by (rule contains_at)
  moreover have "hd (split_acc (u ''```'') [] body) = body"
    using split_acc_free [of "u ''```''" body "[]"] assms(2) by simp
  ultimately show ?thesis using assms(3) by (simp add: code_block_def)
qed

lemma code_block_no_fence: "\<not> contains (u ''```'') s \<Longrightarrow> code_block s = Inr s"
proof -
  assume a: "\<not> contains (u ''```'') s"
  have "prefix (u ''```'') (u ''```json'')" by simp
  from contains_prefix [OF this] a have "\<not> contains (u ''```json'') s" by blast
  with a show ?thesis by (simp add: code_block_def)
qed

text \<open>
  C2, as amended.  \<open>extract_json_from_text\<close> strips the text, takes the contents of
  the first \<open>```json\<close> fence if there is one, else of the first \<open>```\<close> fence, else
  the whole stripped text, and decodes the slice from the first \<open>{\<close> to the last \<open>}\<close>
  of that.  So it recovers an object that \<open>json.loads\<close> decodes whenever, in the text so
  chosen, no \<open>{\<close> stands before the object and no \<open>}\<close> after it; a closed fence gives
  its stripped contents when no backtick stands before it or in it (and, for a
  \<open>```json\<close> fence, none directly after it); and the scenario of the specification
  gives the object with the one field \<open>company\<close>, on an interpreter that can decode a
  container at all.
\<close>

theorem extract_embedded_object:
  \<open>(code_block (strip reply) = Inr (pre @ 0x7B # mid @ 0x7D # post) \<longrightarrow>
      0x7B \<notin> set pre \<longrightarrow> 0x7D \<notin> set post \<longrightarrow>
      json_loads (python e) (0x7B # mid @ [0x7D]) = Inr v \<longrightarrow>
      extract_json_from_text e reply w = (Inr v, w))
   \<and> (0x60 \<notin> set before \<longrightarrow> 0x60 \<notin> set body \<longrightarrow> \<not> prefix [0x60] after \<longrightarrow>
      code_block (before @ u ''```json'' @ body @ u ''```'' @ after) = Inr (strip body))
   \<and> (0x60 \<notin> set before \<longrightarrow> 0x60 \<notin> set body \<longrightarrow>
      \<not> contains (u ''```json'') (before @ u ''```'' @ body @ u ''```'' @ after) \<longrightarrow>
      code_block (before @ u ''```'' @ body @ u ''```'' @ after) = Inr (strip body))
   \<and> (\<not> contains (u ''```'') s \<longrightarrow> code_block s = Inr s)
   \<and> (0 < decode_depth (python e) \<longrightarrow>
      fst (extract_json_from_text e
        (u ''Here is the result:\<newline>```json\<newline>{"company":"X"}\<newline>```\<newline>Thanks!'') w)
      = Inr (JObj [(u ''company'', JStr (u ''X''))]))\<close>
proof -
  have a: "code_block (strip reply) = Inr (pre @ 0x7B # mid @ 0x7D # post) \<longrightarrow>
      0x7B \<notin> set pre \<longrightarrow> 0x7D \<notin> set post \<longrightarrow>
      json_loads (python e) (0x7B # mid @ [0x7D]) = Inr v \<longrightarrow>
      extract_json_from_text e reply w = (Inr v, w)"
    using json_text_object [of pre post mid] extract_decoded [of reply _ e v w] by auto
  have b: \<open>0 < decode_depth (python e) \<longrightarrow>
      fst (extract_json_from_text e
        (u ''Here is the result:\<newline>```json\<newline>{"company":"X"}\<newline>```\<newline>Thanks!'') w)
      = Inr (JObj [(u ''company'', JStr (u ''X''))])\<close>
    by (simp add: extract_json_from_text_def try_extract_def code_block_def fenced_def
        split_py_def index_py_def bind_exn_def strip_def isspace_def json_text_def find_py_def
        rfind_py_def slice_py_def json_loads_def consc_def)
  from a b code_block_json_fence [of before body after]
    code_block_plain_fence [of before body after] code_block_no_fence [of s]
  show ?thesis by blast
qed

theorem extract_embedded_object_witness:
  \<open>fst (extract_json_from_text (sample_env (Inl LLMError))
          (u ''Result: ```\<newline>{"a": [1]}\<newline>``` done'') (sample_world []))
     = Inr (JObj [(u ''a'', JArr [JInt 1])])
   \<and> code_block (u ''Result: ```\<newline>{"a": [1]}\<newline>``` done'') = Inr (u ''{"a": [1]}'')
   \<and> code_block (u ''x ```json {"b": 2} ``` y'') = Inr (u ''{"b": 2}'')
   \<and> code_block (u ''{"c": 3}'') = Inr (u ''{"c": 3}'')
   \<and> fst (extract_json_from_text (sample_env (Inl LLMError))
        (u ''Here is the result:\<newline>```json\<newline>{"company":"X"}\<newline>```\<newline>Thanks!'')
        (sample_world []))
      = Inr (JObj [(u ''company'', JStr (u ''X''))])\<close>
proof -
  let ?e = "sample_env (Inl LLMError)" and ?w = "sample_world []"
  note t = extract_embedded_object [where e = ?e and w = ?w
      and reply = \<open>u ''Result: ```\<newline>{"a": [1]}\<newline>``` done''\<close> and pre = "[]" and post = "[]"
      and mid = \<open>u ''"a": [1]''\<close> and v = \<open>JObj [(u ''a'', JArr [JInt 1])]\<close>]
  have c1: \<open>code_block (u ''Result: ```\<newline>{"a": [1]}\<newline>``` done'') = Inr (u ''{"a": [1]}'')\<close>
    using t [where before = \<open>u ''Result: ''\<close> and body = \<open>u ''\<newline>{"a": [1]}\<newline>''\<close>
        and after = \<open>u '' done''\<close>]
    by (simp add: strip_def isspace_def)
  have c2: \<open>code_block (u ''x ```json {"b": 2} ``` y'') = Inr (u ''{"b": 2}'')\<close>
    using t [where before = \<open>u ''x ''\<close> and body = \<open>u '' {"b": 2} ''\<close> and after = \<open>u '' y''\<close>]
    by (simp add: strip_def isspace_def)
  have c3: \<open>code_block (u ''{"c": 3}'') = Inr (u ''{"c": 3}'')\<close>
    using t [where s = \<open>u ''{"c": 3}''\<close>] by simp
  have l: \<open>json_loads (python ?e) (0x7B # u ''"a": [1]'' @ [0x7D])
      = Inr (JObj [(u ''a'', JArr [JInt 1])])\<close>
    by (simp add: ev)
  have s: \<open>strip (u ''Result: ```\<newline>{"a": [1]}\<newline>``` done'') = u ''Result: ```\<newline>{"a": [1]}\<newline>``` done''\<close>
    by (simp add: strip_def isspace_def)
  have d: "0 < decode_depth (python ?e)"
    by (simp add: sample_env_def sample_python_def)
  have \<open>fst (extract_json_from_text ?e (u ''Result: ```\<newline>{"a": [1]}\<newline>``` done'') ?w)
     = Inr (JObj [(u ''a'', JArr [JInt 1])])\<close>
    using t l c1 s by simp
  with c1 c2 c3 t d show ?thesis by simp
qed

text \<open>
  C2 as stated fails for prose that holds a brace: the slice then starts in the prose,
  decoding fails and the default record comes back instead of the embedded object.
\<close>

theorem extract_embedded_object_counterexample:
  \<open>json_loads sample_python (u ''{"a": 1}'') = Inr (JObj [(u ''a'', JInt 1)])
   \<and> fst (extract_json_from_text (sample_env (Inl LLMError)) (u ''Use {braces}: {"a": 1}'')
            (sample_world []))
       = Inr (fst (create_default_roadmap (sample_env (Inl LLMError)) (u ''Unknown'')
                     (u ''Unknown'') (sample_world [])))
   \<and> fst (extract_json_from_text (sample_env (Inl LLMError)) (u ''Use {braces}: {"a": 1}'')
            (sample_world []))
       \<noteq> Inr (JObj [(u ''a'', JInt 1)])\<close>
  by (simp add: run_defs Let_def print_def)

text \<open>
  C8.  When the key is set, the two mandatory answers are given and the lines read for
  the job description make a text that is empty once stripped, \<open>get_job_description\<close>
  returns \<open>None\<close> and \<open>main\<close> returns after the message that the description cannot be
  empty: no file is written, no search and no LLM call is made, the clock is not read.
\<close>

theorem empty_job_description_aborts:
  assumes "api_key e = Some k" and "k \<noteq> []"
    and "ask (u ''Enter company name: '')
           (0x274C # u '' Company name is required. Please enter a company name.'') (stdin w)
         = (Inr company, in1, out1)"
    and "ask (u ''Enter job role: '')
           (0x274C # u '' Job role is required. Please enter a job role.'') in1
         = (Inr role, in2, out2)"
    and "strip (join [0x0A] (fst (read_lines in2))) = []"
  shows "fst (get_job_description (w\<lparr>stdin := in2\<rparr>)) = None
     \<and> fst (main e w) = Inr ()
     \<and> files (snd (main e w)) = files w
     \<and> net (snd (main e w)) = net w
     \<and> ticks (snd (main e w)) = ticks w
     \<and> stdin (snd (main e w)) = snd (read_lines in2)
     \<and> stdout (snd (main e w)) =
         stdout w
         @ [[Lit (0x1F680 # u '' Job Preparation Roadmap Generator'')], [Lit (replicate 50 0x3D)]]
         @ out1 @ out2
         @ [[Lit (0x0A # u ''Please paste the job description:'')],
            [Lit (u ''(Enter your job description below. Press Ctrl+Z then Enter when finished on Windows)'')],
            [Lit (replicate 50 0x3D)],
            [Lit (0x274C # u '' Error: Job description cannot be empty.'')]]"
proof -
  obtain ls left where r: "read_lines in2 = (ls, left)"
    by (cases "read_lines in2") auto
  with assms(5) have s: "strip (join [0x0A] ls) = []" by simp
  have g: "fst (get_job_description (w\<lparr>stdin := in2\<rparr>)) = None"
    using r s by (simp add: get_job_description_def Let_def print_def)
  have m: "main e w =
      (Inr (),
       w\<lparr>stdin := left,
         stdout := stdout w
           @ [[Lit (0x1F680 # u '' Job Preparation Roadmap Generator'')], [Lit (replicate 50 0x3D)]]
           @ out1 @ out2
           @ [[Lit (0x0A # u ''Please paste the job description:'')],
              [Lit (u ''(Enter your job description below. Press Ctrl+Z then Enter when finished on Windows)'')],
              [Lit (replicate 50 0x3D)],
              [Lit (0x274C # u '' Error: Job description cannot be empty.'')]]\<rparr>)"
    using assms(1-4) r s
    by (simp add: main_def ask_in_def get_job_description_def Let_def print_def)
  from g m r show ?thesis by simp
qed

theorem empty_job_description_aborts_witness:
  "fst (main (sample_env (Inr (u ''{}'')))
         (sample_world [Line (u ''  ''), Line (u '' Acme ''), Line (u ''SDE''), Line (u ''   ''),
                        Line [], Line [0x09]])) = Inr ()
   \<and> files (snd (main (sample_env (Inr (u ''{}'')))
         (sample_world [Line (u ''  ''), Line (u '' Acme ''), Line (u ''SDE''), Line (u ''   ''),
                        Line [], Line [0x09]]))) = files (sample_world [])
   \<and> net (snd (main (sample_env (Inr (u ''{}'')))
         (sample_world [Line (u ''  ''), Line (u '' Acme ''), Line (u ''SDE''), Line (u ''   ''),
                        Line [], Line [0x09]]))) = []
   \<and> last (stdout (snd (main (sample_env (Inr (u ''{}'')))
         (sample_world [Line (u ''  ''), Line (u '' Acme ''), Line (u ''SDE''), Line (u ''   ''),
                        Line [], Line [0x09]]))))
       = [Lit (0x274C # u '' Error: Job description cannot be empty.'')]"
proof -
  let ?e = "sample_env (Inr (u ''{}''))"
  let ?w = "sample_world [Line (u ''  ''), Line (u '' Acme ''), Line (u ''SDE''), Line (u ''   ''),
                        Line [], Line [0x09]]"
  have k: "api_key ?e = Some (u ''secret'')" "u ''secret'' \<noteq> []"
    by (simp_all add: sample_env_def)
  have a: "ask (u ''Enter company name: '')
           (0x274C # u '' Company name is required. Please enter a company name.'') (stdin ?w)
         = (Inr (u ''Acme''), [Line (u ''SDE''), Line (u ''   ''), Line [], Line [0x09]],
            [[Lit (u ''Enter company name: '')],
             [Lit (0x274C # u '' Company name is required. Please enter a company name.'')],
             [Lit (u ''Enter company name: '')]])"
    by (simp add: sample_world_def strip_def isspace_def)
  have b: "ask (u ''Enter job role: '')
           (0x274C # u '' Job role is required. Please enter a job role.'')
           [Line (u ''SDE''), Line (u ''   ''), Line [], Line [0x09]]
         = (Inr (u ''SDE''), [Line (u ''   ''), Line [], Line [0x09]],
            [[Lit (u ''Enter job role: '')]])"
    by (simp add: strip_def isspace_def)
  have c: "strip (join [0x0A] (fst (read_lines [Line (u ''   ''), Line [], Line [0x09]]))) = []"
    by (simp add: strip_def isspace_def)
  from empty_job_description_aborts [OF k a b c]
  show ?thesis by (simp add: sample_world_def)
qed

subsection \<open>Writing a record and reading it back: integers\<close>

lemma digits_of_digits: "\<forall>d \<in> set (digits_of n). digit d"
proof (induction n rule: digits_of.induct)
  case (1 n)
  show ?case
  proof (cases "n < 10")
    case True
    then show ?thesis by (subst digits_of.simps) (simp add: digit_def)
  next
    case False
    have "n mod 10 < 10" by simp
    then have "digit (0x30 + n mod 10)" unfolding digit_def by linarith
    with False "1.IH" show ?thesis by (subst digits_of.simps) simp
  qed
qed

lemma nat_of_digits_snoc: "nat_of_digits (ds @ [d]) = 10 * nat_of_digits ds + (d - 0x30)"
  by (simp add: nat_of_digits_def)

lemma nat_of_digits_of: "nat_of_digits (digits_of n) = n"
proof (induction n rule: digits_of.induct)
  case (1 n)
  show ?case
  proof (cases "n < 10")
    case True
    then show ?thesis by (subst digits_of.simps) (simp add: nat_of_digits_def)
  next
    case False
    with "1.IH" have "nat_of_digits (digits_of (n div 10)) = n div 10" by simp
    with False show ?thesis
      by (subst digits_of.simps) (simp add: nat_of_digits_snoc)
  qed
qed

lemma digits_of_Cons: "\<exists>d ds. digits_of n = d # ds \<and> digit d \<and> (d = 0x30 \<longrightarrow> n = 0 \<and> ds = [])"
proof (induction n rule: digits_of.induct)
  case (1 n)
  show ?case
  proof (cases "n < 10")
    case True
    then show ?thesis by (subst digits_of.simps) (simp add: digit_def)
  next
    case False
    with "1.IH" obtain d ds where d: "digits_of (n div 10) = d # ds" "digit d"
      "d = 0x30 \<longrightarrow> n div 10 = 0 \<and> ds = []" by blast
    from False have "n div 10 \<noteq> 0" by simp
    with d have "d \<noteq> 0x30" by blast
    with d False show ?thesis
      by (subst digits_of.simps) simp
  qed
qed

text \<open>What may follow a value in the text \<open>json.dump\<close> writes.\<close>

definition boundary :: "ustr \<Rightarrow> bool" where
  "boundary rest = (case rest of [] \<Rightarrow> True | c # _ \<Rightarrow> c = 0x2C \<or> c = 0x0A)"

text \<open>What may follow the digits of a group of the number pattern.\<close>

definition no_digit :: "ustr \<Rightarrow> bool" where
  "no_digit rest = (case rest of [] \<Rightarrow> True | c # _ \<Rightarrow> \<not> digit c)"

lemma boundary_no_digit: "boundary rest \<Longrightarrow> no_digit rest"
  by (cases rest) (auto simp: boundary_def no_digit_def digit_def)

lemma takeWhile_then:
  "\<not> digit c \<Longrightarrow> takeWhile digit (takeWhile digit xs @ c # rest) = takeWhile digit xs
     \<and> dropWhile digit (takeWhile digit xs @ c # rest) = c # rest"
  by (induction xs) auto

lemma takeWhile_no_digit:
  "no_digit rest \<Longrightarrow> takeWhile digit (takeWhile digit xs @ rest) = takeWhile digit xs
     \<and> dropWhile digit (takeWhile digit xs @ rest) = rest"
  by (cases rest) (auto simp: no_digit_def takeWhile_then dropWhile_eq_Nil_conv dest: set_takeWhileD)

lemma match_int_cases:
  "match_int x = Some (i, r) \<Longrightarrow>
     (x = 0x30 # r \<and> i = [0x30])
   \<or> (\<exists>d r'. digit d \<and> d \<noteq> 0x30 \<and> x = d # r' \<and> i = d # takeWhile digit r'
          \<and> r = dropWhile digit r')
   \<or> (x = 0x2D # 0x30 # r \<and> i = [0x2D, 0x30])
   \<or> (\<exists>d r'. digit d \<and> d \<noteq> 0x30 \<and> x = 0x2D # d # r' \<and> i = 0x2D # d # takeWhile digit r'
          \<and> r = dropWhile digit r')"
  by (auto simp: match_int_def Let_def split: list.splits if_splits)

lemma match_int_zero: "match_int (0x30 # rest) = Some ([0x30], rest)"
  by (simp add: match_int_def)

lemma match_int_digit:
  "digit d \<Longrightarrow> d \<noteq> 0x30 \<Longrightarrow>
   match_int (d # rest) = Some (d # takeWhile digit rest, dropWhile digit rest)"
  by (auto simp: match_int_def digit_def)

lemma match_int_minus_zero: "match_int (0x2D # 0x30 # rest) = Some ([0x2D, 0x30], rest)"
  by (simp add: match_int_def)

lemma match_int_minus_digit:
  "digit d \<Longrightarrow> d \<noteq> 0x30 \<Longrightarrow>
   match_int (0x2D # d # rest) = Some (0x2D # d # takeWhile digit rest, dropWhile digit rest)"
  by (auto simp: match_int_def digit_def)

lemma match_int_again:
  assumes "match_int x = Some (i, r)" and "no_digit rest"
  shows "match_int (i @ rest) = Some (i, rest)"
  using match_int_cases [OF assms(1)] takeWhile_no_digit [OF assms(2)]
  by (auto simp: match_int_zero match_int_digit match_int_minus_zero match_int_minus_digit)

lemma match_int_text:
  assumes "match_int x = Some (i, r)"
  shows "x = i @ r \<and> (\<exists>ds. ds \<noteq> [] \<and> (\<forall>d \<in> set ds. digit d) \<and> (i = ds \<or> i = 0x2D # ds))"
proof -
  from match_int_cases [OF assms]
  consider "x = 0x30 # r" "i = [0x30]"
    | d r' where "digit d" "x = d # r'" "i = d # takeWhile digit r'" "r = dropWhile digit r'"
    | "x = 0x2D # 0x30 # r" "i = [0x2D, 0x30]"
    | d r' where "digit d" "x = 0x2D # d # r'" "i = 0x2D # d # takeWhile digit r'"
        "r = dropWhile digit r'"
    by blast
  then show ?thesis
  proof cases
    case 1
    then show ?thesis by (intro conjI exI [of _ "[0x30]"]) (simp_all add: digit_def)
  next
    case 2
    then show ?thesis
      by (intro conjI exI [of _ "d # takeWhile digit r'"]) (auto dest: set_takeWhileD)
  next
    case 3
    then show ?thesis by (intro conjI exI [of _ "[0x30]"]) (simp_all add: digit_def)
  next
    case 4
    then show ?thesis
      by (intro conjI exI [of _ "d # takeWhile digit r'"]) (auto dest: set_takeWhileD)
  qed
qed

lemma match_frac_cases:
  "match_frac x = (f, r) \<Longrightarrow>
     (f = [] \<and> r = x)
   \<or> (\<exists>d r'. digit d \<and> x = 0x2E # d # r' \<and> f = 0x2E # d # takeWhile digit r'
          \<and> r = dropWhile digit r')"
  by (auto simp: match_frac_def split: list.splits if_splits)

lemma match_frac_dot:
  "digit d \<Longrightarrow>
   match_frac (0x2E # d # rest) = (0x2E # d # takeWhile digit rest, dropWhile digit rest)"
  by (simp add: match_frac_def)

lemma match_frac_again:
  assumes "match_frac x = (f, r)" and "f \<noteq> []" and "no_digit rest"
  shows "match_frac (f @ rest) = (f, rest)"
  using match_frac_cases [OF assms(1)] assms(2) takeWhile_no_digit [OF assms(3)]
  by (auto simp: match_frac_dot)

lemma match_frac_none: "rest = [] \<or> hd rest \<noteq> 0x2E \<Longrightarrow> match_frac rest = ([], rest)"
  by (auto simp: match_frac_def split: list.splits)

lemma match_exp_cases:
  "match_exp x = (e, r) \<Longrightarrow>
     (e = [] \<and> r = x)
   \<or> (\<exists>c d r'. (c = 0x65 \<or> c = 0x45) \<and> digit d \<and> x = c # d # r'
          \<and> e = c # d # takeWhile digit r' \<and> r = dropWhile digit r')
   \<or> (\<exists>c g d r'. (c = 0x65 \<or> c = 0x45) \<and> (g = 0x2D \<or> g = 0x2B) \<and> digit d
          \<and> x = c # g # d # r' \<and> e = c # g # d # takeWhile digit r' \<and> r = dropWhile digit r')"
  by (auto simp: match_exp_def Let_def split: list.splits if_splits)

lemma match_exp_plain:
  "c = 0x65 \<or> c = 0x45 \<Longrightarrow> digit d \<Longrightarrow>
   match_exp (c # d # rest) = (c # d # takeWhile digit rest, dropWhile digit rest)"
  by (auto simp: match_exp_def digit_def)

lemma match_exp_signed:
  "c = 0x65 \<or> c = 0x45 \<Longrightarrow> g = 0x2D \<or> g = 0x2B \<Longrightarrow> digit d \<Longrightarrow>
   match_exp (c # g # d # rest) = (c # g # d # takeWhile digit rest, dropWhile digit rest)"
  by (auto simp: match_exp_def)

lemma match_exp_again:
  assumes "match_exp x = (e, r)" and "e \<noteq> []" and "no_digit rest"
  shows "match_exp (e @ rest) = (e, rest)"
  using match_exp_cases [OF assms(1)] assms(2) takeWhile_no_digit [OF assms(3)]
  by (auto simp: match_exp_plain match_exp_signed)

lemma match_exp_none:
  "rest = [] \<or> (hd rest \<noteq> 0x65 \<and> hd rest \<noteq> 0x45) \<Longrightarrow> match_exp rest = ([], rest)"
  by (auto simp: match_exp_def split: list.splits)

lemma match_frac_split: "match_frac x = (f, r) \<Longrightarrow> x = f @ r"
  by (auto dest!: match_frac_cases)

lemma match_exp_split: "match_exp x = (e, r) \<Longrightarrow> x = e @ r"
  by (auto dest!: match_exp_cases)

lemma match_groups_again:
  assumes mi: "match_int x = Some (i, r0)" and mf: "match_frac r0 = (f, r1)"
    and me: "match_exp r1 = (e, r2)" and b: "boundary rest"
  shows "match_int (i @ f @ e @ rest) = Some (i, f @ e @ rest)"
    and "match_frac (f @ e @ rest) = (f, e @ rest)"
    and "match_exp (e @ rest) = (e, rest)"
proof -
  from b have nr: "no_digit rest" by (rule boundary_no_digit)
  from match_exp_cases [OF me] have eh: "e = [] \<or> hd e = 0x65 \<or> hd e = 0x45" by auto
  from match_frac_cases [OF mf] have fh: "f = [] \<or> hd f = 0x2E" by auto
  from b have rh: "rest = [] \<or> hd rest = 0x2C \<or> hd rest = 0x0A"
    by (cases rest) (auto simp: boundary_def)
  have ne: "no_digit (e @ rest)"
    using eh nr by (cases e) (auto simp: no_digit_def digit_def)
  have nf: "no_digit (f @ e @ rest)"
    using fh ne by (cases f) (auto simp: no_digit_def digit_def)
  from mi nf show "match_int (i @ f @ e @ rest) = Some (i, f @ e @ rest)"
    by (rule match_int_again)
  show "match_exp (e @ rest) = (e, rest)"
  proof (cases "e = []")
    case True
    with rh show ?thesis by (auto intro: match_exp_none)
  next
    case False
    with me nr show ?thesis by (intro match_exp_again)
  qed
  show "match_frac (f @ e @ rest) = (f, e @ rest)"
  proof (cases "f = []")
    case True
    have "e @ rest = [] \<or> hd (e @ rest) \<noteq> 0x2E"
      using eh rh by (cases e) auto
    with True show ?thesis by (auto intro: match_frac_none)
  next
    case False
    with mf ne show ?thesis by (intro match_frac_again)
  qed
qed

lemma match_number_again:
  assumes "match_number x = Some (t, r)" and "boundary rest"
  shows "\<exists>s. (t = TInt s \<or> t = TFloat s) \<and> x = s @ r \<and> match_number (s @ rest) = Some (t, rest)"
proof -
  from assms(1) obtain i r0 f r1 e where mi: "match_int x = Some (i, r0)"
    and mf: "match_frac r0 = (f, r1)" and me: "match_exp r1 = (e, r)"
    and t: "t = (if f = [] \<and> e = [] then TInt i else TFloat (i @ f @ e))"
    by (auto simp: match_number_def Let_def split: option.splits prod.splits if_splits)
  from match_int_text [OF mi] match_frac_split [OF mf] match_exp_split [OF me]
  have x: "x = (i @ f @ e) @ r" by simp
  note g = match_groups_again [OF mi mf me assms(2)]
  have "match_number ((i @ f @ e) @ rest) = Some (t, rest)"
    using g t by (simp add: match_number_def)
  with x t show ?thesis by (cases "f = [] \<and> e = []") auto
qed

lemma boundary_Nil: "boundary []"
  by (simp add: boundary_def)

text \<open>The text of a number token is a numeral by itself.\<close>

lemma match_number_closed:
  assumes "match_number x = Some (t, r)"
  shows "(\<forall>s. t = TInt s \<longrightarrow> match_number s = Some (TInt s, []))
       \<and> (\<forall>s. t = TFloat s \<longrightarrow> match_number s = Some (TFloat s, []))"
  using match_number_again [OF assms boundary_Nil] by auto

lemma match_number_follow:
  assumes "match_number s = Some (t, [])" and "t = TInt s \<or> t = TFloat s" and "boundary rest"
  shows "match_number (s @ rest) = Some (t, rest)"
  using match_number_again [OF assms(1,3)] assms(2) by auto

lemma match_number_head:
  assumes "match_number x = Some (t, r)"
  shows "\<exists>c cs. x = c # cs \<and> (c = 0x2D \<or> digit c)"
proof -
  from assms obtain i r0 where "match_int x = Some (i, r0)"
    by (auto simp: match_number_def split: option.splits)
  from match_int_cases [OF this] show ?thesis by (auto simp: digit_def)
qed

lemma lex_number:
  assumes "match_number x = Some (t, r)"
  shows "lex x = t # lex r"
proof -
  from match_number_head [OF assms] obtain c cs where c: "x = c # cs" "c = 0x2D \<or> digit c"
    by blast
  from c(2) assms show ?thesis unfolding c(1) by (auto simp: digit_def)
qed

lemma int_of_text_show_int: "int_of_text (show_int i) = i"
proof (cases "i < 0")
  case True
  then show ?thesis by (simp add: show_int_def int_of_text_def nat_of_digits_of)
next
  case False
  obtain d ds where d: "digits_of (nat i) = d # ds" "digit d"
    using digits_of_Cons by blast
  then have "d \<noteq> 0x2D" by (auto simp: digit_def)
  with False d nat_of_digits_of [of "nat i"] show ?thesis
    by (simp add: show_int_def int_of_text_def)
qed

lemma takeWhile_all_digits: "\<forall>d \<in> set ds. digit d \<Longrightarrow> takeWhile digit ds = ds \<and> dropWhile digit ds = []"
  by (induction ds) auto

lemma match_int_digits: "match_int (digits_of n) = Some (digits_of n, [])"
proof -
  obtain d ds where d: "digits_of n = d # ds" "digit d" "d = 0x30 \<longrightarrow> n = 0 \<and> ds = []"
    using digits_of_Cons by blast
  have a: "\<forall>x \<in> set ds. digit x" using digits_of_digits [of n] d(1) by simp
  show ?thesis
  proof (cases "d = 0x30")
    case True
    with d show ?thesis by (simp add: match_int_zero)
  next
    case False
    with d takeWhile_all_digits [OF a] show ?thesis by (simp add: match_int_digit)
  qed
qed

lemma match_int_negative:
  assumes "0 < n"
  shows "match_int (0x2D # digits_of n) = Some (0x2D # digits_of n, [])"
proof -
  obtain d ds where d: "digits_of n = d # ds" "digit d" "d = 0x30 \<longrightarrow> n = 0 \<and> ds = []"
    using digits_of_Cons by blast
  have a: "\<forall>x \<in> set ds. digit x" using digits_of_digits [of n] d(1) by simp
  from d(3) assms have "d \<noteq> 0x30" by auto
  with d takeWhile_all_digits [OF a] show ?thesis by (simp add: match_int_minus_digit)
qed

lemma match_number_show_int: "match_number (show_int i) = Some (TInt (show_int i), [])"
proof -
  have "match_int (show_int i) = Some (show_int i, [])"
  proof (cases "i < 0")
    case True
    then have "0 < nat (- i)" by simp
    from match_int_negative [OF this] True show ?thesis by (simp add: show_int_def)
  next
    case False
    with match_int_digits show ?thesis by (simp add: show_int_def)
  qed
  then show ?thesis
    by (simp add: match_number_def match_frac_def match_exp_def)
qed

lemma lex_show_int:
  assumes "boundary rest"
  shows "lex (show_int i @ rest) = TInt (show_int i) # lex rest"
proof -
  have "match_number (show_int i @ rest) = Some (TInt (show_int i), rest)"
    using match_number_show_int assms by (intro match_number_follow) simp_all
  then show ?thesis by (rule lex_number)
qed

lemma filter_digit_show_int: "filter digit (show_int i) = digits_of (nat \<bar>i\<bar>)"
proof -
  have a: "filter digit (digits_of n) = digits_of n" for n
    using digits_of_digits [of n] by (simp add: filter_id_conv)
  have b: "\<not> digit 0x2D" by (simp add: digit_def)
  show ?thesis
  proof (cases "i < 0")
    case True
    then have "nat \<bar>i\<bar> = nat (- i)" by simp
    with True a b show ?thesis by (simp add: show_int_def)
  next
    case False
    then have "nat \<bar>i\<bar> = nat i" by simp
    with False a show ?thesis by (simp add: show_int_def)
  qed
qed

text \<open>An integer read from a numeral has no more digits than the numeral.\<close>

lemma digits_of_step:
  "b < 10 \<Longrightarrow> length (digits_of (10 * a + b)) = (if a = 0 then 1 else Suc (length (digits_of a)))"
  by (subst digits_of.simps) (auto simp: div_mult_self1_is_m)

lemma digits_bound:
  "\<forall>d \<in> set ds. digit d \<Longrightarrow> ds \<noteq> [] \<Longrightarrow> length (digits_of (nat_of_digits ds)) \<le> length ds"
proof (induction ds rule: rev_induct)
  case Nil
  then show ?case by simp
next
  case (snoc d ds)
  from snoc.prems(1) have d: "d - 0x30 < 10" by (auto simp: digit_def)
  show ?case
  proof (cases "ds = []")
    case True
    with d show ?thesis
      by (simp add: nat_of_digits_def) (subst digits_of.simps, simp)
  next
    case False
    with snoc have "length (digits_of (nat_of_digits ds)) \<le> length ds" by simp
    with d show ?thesis by (simp add: nat_of_digits_snoc digits_of_step)
  qed
qed

lemma int_numeral_digits:
  assumes "match_number s = Some (TInt s, [])"
  shows "length (digits_of (nat \<bar>int_of_text s\<bar>)) \<le> length (filter digit s)"
proof -
  from assms obtain i r0 where mi: "match_int s = Some (i, r0)"
    by (auto simp: match_number_def split: option.splits)
  with assms have "i = s"
    by (auto simp: match_number_def Let_def split: prod.splits if_splits)
  with match_int_text [OF mi] obtain ds where ds: "ds \<noteq> []" "\<forall>d \<in> set ds. digit d"
    "s = ds \<or> s = 0x2D # ds" by blast
  have f: "filter digit ds = ds" using ds(2) by (simp add: filter_id_conv)
  have m: "\<not> digit 0x2D" by (simp add: digit_def)
  from ds(1,2) have h: "hd ds \<noteq> 0x2D" by (cases ds) (auto simp: digit_def)
  from ds(3) show ?thesis
  proof
    assume s: "s = ds"
    with ds(1) h have "int_of_text s = int (nat_of_digits ds)"
      by (cases ds) (auto simp: int_of_text_def)
    with s f digits_bound [OF ds(2,1)] show ?thesis by simp
  next
    assume s: "s = 0x2D # ds"
    then have "int_of_text s = - int (nat_of_digits ds)" by (simp add: int_of_text_def)
    with s f m digits_bound [OF ds(2,1)] show ?thesis by simp
  qed
qed

subsection \<open>Writing a record and reading it back: strings\<close>

lemma hex_val_hex_digit: "d < 16 \<Longrightarrow> hex_val (hex_digit d) = Some d"
  by (auto simp: hex_val_def hex_digit_def)

lemma hex4_control:
  assumes "c < 0x20"
  shows "hex4 (0x30 # 0x30 # hex_digit (c div 16) # hex_digit (c mod 16) # rest) = Some c"
proof -
  have a: "c div 16 < 16" "c mod 16 < 16" using assms by auto
  have "hex_val 0x30 = Some 0" by (simp add: hex_val_def)
  with hex_val_hex_digit [OF a(1)] hex_val_hex_digit [OF a(2)] show ?thesis by simp
qed

lemma scanstring_escape: "scanstring (escape c @ rest) = consc c (scanstring rest)"
proof -
  consider (quote) "c = 0x22" | (backslash) "c = 0x5C" | (n) "c = 0x0A" | (r) "c = 0x0D"
    | (t) "c = 0x09" | (b) "c = 0x08" | (f) "c = 0x0C"
    | (control) "c < 0x20" "c \<noteq> 0x0A" "c \<noteq> 0x0D" "c \<noteq> 0x09" "c \<noteq> 0x08" "c \<noteq> 0x0C"
    | (plain) "0x20 \<le> c" "c \<noteq> 0x22" "c \<noteq> 0x5C"
    by fastforce
  then show ?thesis
  proof cases
    case quote
    then show ?thesis by (simp add: escape_def unescape_def)
  next
    case backslash
    then show ?thesis by (simp add: escape_def unescape_def)
  next
    case n
    then show ?thesis by (simp add: escape_def unescape_def)
  next
    case r
    then show ?thesis by (simp add: escape_def unescape_def)
  next
    case t
    then show ?thesis by (simp add: escape_def unescape_def)
  next
    case b
    then show ?thesis by (simp add: escape_def unescape_def)
  next
    case f
    then show ?thesis by (simp add: escape_def unescape_def)
  next
    case control
    then have e: "escape c = [0x5C, 0x75, 0x30, 0x30, hex_digit (c div 16), hex_digit (c mod 16)]"
      by (auto simp: escape_def)
    have h: "\<not> high_surrogate c" using control(1) by (simp add: high_surrogate_def)
    show ?thesis unfolding e using hex4_control [OF control(1)] h by simp
  next
    case plain
    then have "escape c = [c]" by (auto simp: escape_def)
    with plain show ?thesis by simp
  qed
qed

lemma scanstring_escaped:
  "scanstring (concat (map escape s) @ 0x22 # rest) = Some (s, rest)"
proof (induction s)
  case Nil
  then show ?case by simp
next
  case (Cons c s)
  have "scanstring (escape c @ (concat (map escape s) @ 0x22 # rest))
      = consc c (scanstring (concat (map escape s) @ 0x22 # rest))"
    by (rule scanstring_escape)
  with Cons.IH show ?case by (simp add: consc_def)
qed

lemma lex_encode_str: "lex (encode_str s @ rest) = TString s # lex rest"
  using scanstring_escaped [of s rest] by (simp add: encode_str_def)

subsection \<open>White space and punctuation\<close>

lemma lex_spaces: "lex (replicate n 0x20 @ rest) = lex rest"
  by (induction n) auto

lemma lex_newline_indent: "lex (newline_indent n @ rest) = lex rest"
  by (simp add: newline_indent_def lex_spaces)

lemma boundary_newline_indent: "boundary (newline_indent n @ rest)"
  by (simp add: boundary_def newline_indent_def)

lemma boundary_comma: "boundary (0x2C # rest)"
  by (simp add: boundary_def)

subsection \<open>Writing a record and reading it back: floats\<close>

text \<open>The token the decoder reads from the text of a float.\<close>

definition float_token :: "ustr \<Rightarrow> token" where
  "float_token t =
     (if t = u ''NaN'' then TNaN
      else if t = u ''Infinity'' then TInfinity
      else if t = u ''-Infinity'' then TNegInfinity
      else TFloat t)"

lemma lex_float:
  assumes "float_fixed py t" and "boundary rest"
  shows "lex (t @ rest) = float_token t # lex rest"
proof -
  from assms(1) consider "t = u ''NaN''" | "t = u ''Infinity''" | "t = u ''-Infinity''"
    | "t \<noteq> u ''NaN''" "t \<noteq> u ''Infinity''" "t \<noteq> u ''-Infinity''" "float_numeral t"
    unfolding float_fixed_def by blast
  then show ?thesis
  proof cases
    case 1
    then show ?thesis by (simp add: float_token_def match_number_def match_int_def digit_def)
  next
    case 2
    then show ?thesis by (simp add: float_token_def match_number_def match_int_def digit_def)
  next
    case 3
    then show ?thesis by (simp add: float_token_def match_number_def match_int_def digit_def)
  next
    case 4
    from 4(4) have "match_number t = Some (TFloat t, [])" by (simp add: float_numeral_def)
    with assms(2) have "match_number (t @ rest) = Some (TFloat t, rest)"
      by (intro match_number_follow) simp_all
    from lex_number [OF this] 4(1-3) show ?thesis by (simp add: float_token_def)
  qed
qed

lemma value_step_float:
  assumes "float_fixed py t"
  shows "value_step py st (float_token t) = Inr (deliver (JFloat t) st)"
proof -
  from assms consider "t = u ''NaN''" | "t = u ''Infinity''" | "t = u ''-Infinity''"
    | "t \<noteq> u ''NaN''" "t \<noteq> u ''Infinity''" "t \<noteq> u ''-Infinity''" "float_repr py t = t"
    unfolding float_fixed_def by blast
  then show ?thesis by cases (simp_all add: float_token_def)
qed

subsection \<open>Writing a record and reading it back: the tokens\<close>

text \<open>The tokens of the text written for a value.\<close>

fun toks :: "json \<Rightarrow> token list"
  and toks_items :: "json list \<Rightarrow> token list"
  and toks_pairs :: "(ustr \<times> json) list \<Rightarrow> token list"
where
  "toks JNull = [TNull]"
| "toks (JBool b) = [if b then TTrue else TFalse]"
| "toks (JInt i) = [TInt (show_int i)]"
| "toks (JFloat t) = [float_token t]"
| "toks (JStr s) = [TString s]"
| "toks (JArr vs) = TLBrack # toks_items vs @ [TRBrack]"
| "toks (JObj kvs) = TLBrace # toks_pairs kvs @ [TRBrace]"
| "toks_items [] = []"
| "toks_items (v # vs) = toks v @ (if vs = [] then [] else TComma # toks_items vs)"
| "toks_pairs [] = []"
| "toks_pairs ((k, v) # kvs) =
     TString k # TColon # toks v @ (if kvs = [] then [] else TComma # toks_pairs kvs)"

text \<open>Every float in the value is a text that is read back as itself.\<close>

fun float_ok :: "interpreter \<Rightarrow> json \<Rightarrow> bool" where
  "float_ok py (JFloat t) = float_fixed py t"
| "float_ok py _ = True"

lemma lex_dump:
  "(every (float_ok py) v \<longrightarrow> (\<forall>rest. boundary rest \<longrightarrow>
      lex (dump_value level v @ rest) = toks v @ lex rest))"
  "(every_items (float_ok py) vs \<longrightarrow> (\<forall>rest. boundary rest \<longrightarrow>
      lex (dump_items level vs @ rest) = toks_items vs @ lex rest))"
  "(every_pairs (float_ok py) kvs \<longrightarrow> (\<forall>rest. boundary rest \<longrightarrow>
      lex (dump_pairs level kvs @ rest) = toks_pairs kvs @ lex rest))"
proof (induction level v and level vs and level kvs
    rule: dump_value_dump_items_dump_pairs.induct)
  case (1 level)
  show ?case by simp
next
  case (2 level b)
  show ?case by simp
next
  case (3 level i)
  show ?case by (simp add: lex_show_int)
next
  case (4 level t)
  show ?case by (simp add: lex_float)
next
  case (5 level s)
  show ?case by (simp add: lex_encode_str)
next
  case (6 level vs)
  show ?case
  proof (cases "vs = []")
    case True
    then show ?thesis by simp
  next
    case False
    show ?thesis
    proof (intro impI allI)
      fix rest
      assume e: "every (float_ok py) (JArr vs)" and b: "boundary rest"
      from e have "every_items (float_ok py) vs" by simp
      with "6.IH" [OF False] boundary_newline_indent [of level "0x5D # rest"]
      have "lex (dump_items (Suc level) vs @ newline_indent level @ 0x5D # rest)
          = toks_items vs @ lex (newline_indent level @ 0x5D # rest)" by blast
      with False show "lex (dump_value level (JArr vs) @ rest) = toks (JArr vs) @ lex rest"
        by (simp add: lex_newline_indent)
    qed
  qed
next
  case (7 level kvs)
  show ?case
  proof (cases "kvs = []")
    case True
    then show ?thesis by simp
  next
    case False
    show ?thesis
    proof (intro impI allI)
      fix rest
      assume e: "every (float_ok py) (JObj kvs)" and b: "boundary rest"
      from e have "every_pairs (float_ok py) kvs" by simp
      with "7.IH" [OF False] boundary_newline_indent [of level "0x7D # rest"]
      have "lex (dump_pairs (Suc level) kvs @ newline_indent level @ 0x7D # rest)
          = toks_pairs kvs @ lex (newline_indent level @ 0x7D # rest)" by blast
      with False show "lex (dump_value level (JObj kvs) @ rest) = toks (JObj kvs) @ lex rest"
        by (simp add: lex_newline_indent)
    qed
  qed
next
  case (8 level)
  show ?case by simp
next
  case (9 level v vs)
  show ?case
  proof (intro impI allI)
    fix rest
    assume e: "every_items (float_ok py) (v # vs)" and b: "boundary rest"
    show "lex (dump_items level (v # vs) @ rest) = toks_items (v # vs) @ lex rest"
    proof (cases "vs = []")
      case True
      with e b "9.IH"(1) show ?thesis by simp
    next
      case False
      from e "9.IH"(2) [OF False] b
      have t: "lex (dump_items level vs @ rest) = toks_items vs @ lex rest" by simp
      from e "9.IH"(1) boundary_comma
      have "lex (dump_value level v @ 0x2C # newline_indent level @ dump_items level vs @ rest)
          = toks v @ lex (0x2C # newline_indent level @ dump_items level vs @ rest)"
        by simp
      with False t show ?thesis
        by (simp add: lex_newline_indent)
    qed
  qed
next
  case (10 level)
  show ?case by simp
next
  case (11 level k v kvs)
  show ?case
  proof (intro impI allI)
    fix rest
    assume e: "every_pairs (float_ok py) ((k, v) # kvs)" and b: "boundary rest"
    show "lex (dump_pairs level ((k, v) # kvs) @ rest) = toks_pairs ((k, v) # kvs) @ lex rest"
    proof (cases "kvs = []")
      case True
      with e b "11.IH"(1) show ?thesis
        by (simp add: lex_encode_str)
    next
      case False
      from e "11.IH"(2) [OF False] b
      have t: "lex (dump_pairs level kvs @ rest) = toks_pairs kvs @ lex rest" by simp
      from e "11.IH"(1) boundary_comma
      have "lex (dump_value level v @ 0x2C # newline_indent level @ dump_pairs level kvs @ rest)
          = toks v @ lex (0x2C # newline_indent level @ dump_pairs level kvs @ rest)"
        by simp
      with False t show ?thesis
        by (simp add: lex_encode_str lex_newline_indent)
    qed
  qed
qed

lemma readable_floats:
  "readable py d v \<longrightarrow> every (float_ok py) v"
  "readable_items py d vs \<longrightarrow> every_items (float_ok py) vs"
  "readable_pairs py d kvs \<longrightarrow> every_pairs (float_ok py) kvs"
  by (induction py d v and py d vs and py d kvs rule: readable_readable_items_readable_pairs.induct)
    simp_all

text \<open>The state of the decoder after a value went to the frame that waits for it.\<close>

definition after_value :: "interpreter \<Rightarrow> json \<Rightarrow> frame list \<Rightarrow> token list \<Rightarrow> exn + json" where
  "after_value py v st ts = (case deliver v st of (m, st') \<Rightarrow> run py m st' ts)"

lemma dict_set_new: "k \<notin> set (map fst kvs) \<Longrightarrow> dict_set kvs k v = kvs @ [(k, v)]"
  by (induction kvs) auto

lemma after_value_arr:
  "after_value py v (FArr acc # st) ts = run py (AfterElem (acc @ [v])) st ts"
  by (simp add: after_value_def)

lemma after_value_obj:
  "k \<notin> set (map fst acc) \<Longrightarrow>
   after_value py v (FObj acc k # st) ts = run py (AfterPair (acc @ [(k, v)])) st ts"
  by (simp add: after_value_def dict_set_new)

lemma run_toks:
  "(\<forall>st ts. readable py (length st) v \<longrightarrow> run py Value st (toks v @ ts) = after_value py v st ts)"
  "(vs \<noteq> [] \<longrightarrow>
     (\<forall>acc st ts. readable_items py (Suc (length st)) vs \<longrightarrow>
        run py Value (FArr acc # st) (toks_items vs @ TRBrack # ts)
        = after_value py (JArr (acc @ vs)) st ts))"
  "(kvs \<noteq> [] \<longrightarrow> distinct (map fst kvs) \<longrightarrow>
     (\<forall>acc st ts. readable_pairs py (Suc (length st)) kvs \<longrightarrow>
        set (map fst kvs) \<inter> set (map fst acc) = {} \<longrightarrow>
        run py (KeyN acc) st (toks_pairs kvs @ TRBrace # ts)
        = after_value py (JObj (acc @ kvs)) st ts))"
proof (induction v and vs and kvs rule: toks_toks_items_toks_pairs.induct)
  case 1
  show ?case by (simp add: after_value_def)
next
  case (2 b)
  show ?case by (cases b) (simp_all add: after_value_def)
next
  case (3 i)
  show ?case
    by (simp add: after_value_def filter_digit_show_int int_of_text_show_int)
next
  case (4 t)
  show ?case by (simp add: after_value_def value_step_float)
next
  case (5 s)
  show ?case by (simp add: after_value_def)
next
  case (6 vs)
  show ?case
  proof (cases "vs = []")
    case True
    then show ?thesis by (simp add: after_value_def)
  next
    case False
    show ?thesis
    proof (intro impI allI)
      fix st :: "frame list" and ts
      assume r: "readable py (length st) (JArr vs)"
      then have e: "readable_items py (Suc (length st)) vs" and d: "length st < decode_depth py"
        by simp_all
      obtain v vs' where c: "vs = v # vs'" using False by (cases vs) auto
      then obtain t tl where t: "toks_items vs = t # tl" "t \<noteq> TRBrack"
        by (cases v) (auto simp: float_token_def split: if_splits)
      have "run py Value st (toks (JArr vs) @ ts) = run py Elems0 st (toks_items vs @ TRBrack # ts)"
        using d by simp
      also have "\<dots> = run py Value (FArr [] # st) (toks_items vs @ TRBrack # ts)"
        using t by simp
      also have "\<dots> = after_value py (JArr ([] @ vs)) st ts"
        using "6.IH" e False by blast
      finally show "run py Value st (toks (JArr vs) @ ts) = after_value py (JArr vs) st ts"
        by simp
    qed
  qed
next
  case (7 kvs)
  show ?case
  proof (cases "kvs = []")
    case True
    then show ?thesis by (simp add: after_value_def)
  next
    case False
    show ?thesis
    proof (intro impI allI)
      fix st :: "frame list" and ts
      assume a: "readable py (length st) (JObj kvs)"
      then have e: "readable_pairs py (Suc (length st)) kvs" and d: "distinct (map fst kvs)"
        and l: "length st < decode_depth py" by simp_all
      obtain k v kvs' where c: "kvs = (k, v) # kvs'" using False by (cases kvs) auto
      have "run py Value st (toks (JObj kvs) @ ts) = run py Key0 st (toks_pairs kvs @ TRBrace # ts)"
        using l by simp
      also have "\<dots> = run py (KeyN []) st (toks_pairs kvs @ TRBrace # ts)"
        unfolding c by simp
      also have "\<dots> = after_value py (JObj ([] @ kvs)) st ts"
        using "7.IH" e d False by simp
      finally show "run py Value st (toks (JObj kvs) @ ts) = after_value py (JObj kvs) st ts"
        by simp
    qed
  qed
next
  case 8
  show ?case by simp
next
  case (9 v vs)
  show ?case
  proof (intro impI allI)
    fix acc and st :: "frame list" and ts
    assume e: "readable_items py (Suc (length st)) (v # vs)"
    then have v: "\<And>ts. run py Value (FArr acc # st) (toks v @ ts)
        = after_value py v (FArr acc # st) ts" for acc
      using "9.IH"(1) by simp
    show "run py Value (FArr acc # st) (toks_items (v # vs) @ TRBrack # ts)
        = after_value py (JArr (acc @ v # vs)) st ts"
    proof (cases "vs = []")
      case True
      then show ?thesis by (simp add: v after_value_arr) (simp add: after_value_def)
    next
      case False
      from e "9.IH"(2) [OF False] False
      have "run py Value (FArr (acc @ [v]) # st) (toks_items vs @ TRBrack # ts)
          = after_value py (JArr ((acc @ [v]) @ vs)) st ts" by simp
      with False show ?thesis by (simp add: v after_value_arr)
    qed
  qed
next
  case 10
  show ?case by simp
next
  case (11 k v kvs)
  show ?case
  proof (intro impI allI)
    fix acc :: "(ustr \<times> json) list" and st :: "frame list" and ts
    assume e: "readable_pairs py (Suc (length st)) ((k, v) # kvs)"
      and d: "distinct (map fst ((k, v) # kvs))"
      and i: "set (map fst ((k, v) # kvs)) \<inter> set (map fst acc) = {}"
    from e have v: "\<And>ts. run py Value (FObj acc k # st) (toks v @ ts)
        = after_value py v (FObj acc k # st) ts" for acc
      using "11.IH"(1) by simp
    from i have k: "k \<notin> set (map fst acc)" by auto
    show "run py (KeyN acc) st (toks_pairs ((k, v) # kvs) @ TRBrace # ts)
        = after_value py (JObj (acc @ (k, v) # kvs)) st ts"
    proof (cases "kvs = []")
      case True
      then show ?thesis
        by (simp add: v after_value_obj [OF k]) (simp add: after_value_def)
    next
      case False
      from d i have "set (map fst kvs) \<inter> set (map fst (acc @ [(k, v)])) = {}" by auto
      with e d "11.IH"(2) [OF False] False
      have "run py (KeyN (acc @ [(k, v)])) st (toks_pairs kvs @ TRBrace # ts)
          = after_value py (JObj ((acc @ [(k, v)]) @ kvs)) st ts" by simp
      with False show ?thesis by (simp add: v after_value_obj [OF k])
    qed
  qed
qed

lemma json_loads_dumps:
  assumes "readable py 0 v"
  shows "json_loads py (json_dumps v) = Inr v"
proof -
  from readable_floats(1) [of py 0 v] assms have f: "every (float_ok py) v" by blast
  with lex_dump(1) [of py v 0] boundary_Nil
  have "lex (dump_value 0 v @ []) = toks v @ lex []" by blast
  then have l: "lex (json_dumps v) = toks v" by (simp add: json_dumps_def)
  from run_toks(1) [of py v, rule_format, of "[]" "[]"] assms
  have "run py Value [] (toks v @ []) = after_value py v [] []" by simp
  then have "run py Value [] (toks v) = Inr v" by (simp add: after_value_def)
  with l show ?thesis by (simp add: json_loads_def)
qed

subsection \<open>What the decoder gives can be read again\<close>

text \<open>A number token holds a numeral.\<close>

fun numeral_token :: "token \<Rightarrow> bool" where
  "numeral_token (TInt s) = (match_number s = Some (TInt s, []))"
| "numeral_token (TFloat s) = float_numeral s"
| "numeral_token _ = True"

lemma match_number_numeral: "match_number x = Some (t, r) \<Longrightarrow> numeral_token t"
  by (cases t) (auto dest: match_number_closed simp: float_numeral_def)

lemma lex_numerals: "list_all numeral_token (lex s)"
proof (induction "length s" arbitrary: s rule: less_induct)
  case less
  show ?case
  proof (cases s)
    case Nil
    then show ?thesis by simp
  next
    case (Cons c cs)
    have ih: "list_all numeral_token (lex r)" if "length r \<le> length cs" for r
      using less [of r] that Cons by simp
    have a: "list_all numeral_token (lex cs)" "list_all numeral_token (lex (drop 2 cs))"
      "list_all numeral_token (lex (drop 3 cs))" "list_all numeral_token (lex (drop 4 cs))"
      "list_all numeral_token (lex (drop 7 cs))" "list_all numeral_token (lex (drop 8 cs))"
      by (simp_all add: ih)
    have b: "list_all numeral_token (case scanstring cs of None \<Rightarrow> [TBad]
        | Some (x, r) \<Rightarrow> TString x # lex r)"
    proof (cases "scanstring cs")
      case None
      then show ?thesis by simp
    next
      case (Some p)
      obtain x r where p: "p = (x, r)" by (cases p)
      with Some scanstring_shorter [of cs x r] ih [of r] show ?thesis by simp
    qed
    have n: "list_all numeral_token (t # lex r)" if "match_number (c # cs) = Some (t, r)" for t r
      using that match_number_shorter [OF that] match_number_numeral [OF that] ih [of r] by simp
    show ?thesis
    proof (cases "match_number (c # cs)")
      case None
      with a b show ?thesis unfolding Cons lex.simps by simp
    next
      case (Some p)
      obtain t r where p: "p = (t, r)" by (cases p)
      with Some n [of t r] a b show ?thesis unfolding Cons lex.simps by simp
    qed
  qed
qed

lemma too_long_mono: "\<not> too_long py m \<Longrightarrow> n \<le> m \<Longrightarrow> \<not> too_long py n"
  by (auto simp: too_long_def)

lemma readable_items_snoc:
  "readable_items py d (vs @ [v]) = (readable_items py d vs \<and> readable py d v)"
  by (induction vs) auto

lemma readable_pairs_dict_set:
  "readable_pairs py d kvs \<Longrightarrow> readable py d v \<Longrightarrow> readable_pairs py d (dict_set kvs k v)"
  by (induction kvs) auto

lemma distinct_dict_set: "distinct (map fst kvs) \<Longrightarrow> distinct (map fst (dict_set kvs k v))"
  by (induction kvs) (auto simp: keys_dict_set split: if_splits)

text \<open>The containers that are open hold readable values, at the depth they are at.\<close>

fun frames_ok :: "interpreter \<Rightarrow> frame list \<Rightarrow> bool" where
  "frames_ok py [] = True"
| "frames_ok py (FArr vs # st) =
     (length st < decode_depth py \<and> readable_items py (Suc (length st)) vs \<and> frames_ok py st)"
| "frames_ok py (FObj kvs k # st) =
     (length st < decode_depth py \<and> distinct (map fst kvs)
      \<and> readable_pairs py (Suc (length st)) kvs \<and> frames_ok py st)"

fun mode_ok :: "interpreter \<Rightarrow> nat \<Rightarrow> mode \<Rightarrow> bool" where
  "mode_ok py d Value = True"
| "mode_ok py d Elems0 = (d < decode_depth py)"
| "mode_ok py d (AfterElem vs) = (d < decode_depth py \<and> readable_items py (Suc d) vs)"
| "mode_ok py d Key0 = (d < decode_depth py)"
| "mode_ok py d (KeyN kvs) =
     (d < decode_depth py \<and> distinct (map fst kvs) \<and> readable_pairs py (Suc d) kvs)"
| "mode_ok py d (Colon kvs k) =
     (d < decode_depth py \<and> distinct (map fst kvs) \<and> readable_pairs py (Suc d) kvs)"
| "mode_ok py d (AfterPair kvs) =
     (d < decode_depth py \<and> distinct (map fst kvs) \<and> readable_pairs py (Suc d) kvs)"
| "mode_ok py d (End v) = (d = 0 \<and> readable py 0 v)"

lemma deliver_ok:
  "readable py (length st) v \<Longrightarrow> frames_ok py st \<Longrightarrow> deliver v st = (m, st') \<Longrightarrow>
   mode_ok py (length st') m \<and> frames_ok py st'"
  by (induction v st rule: deliver.induct)
    (auto simp: readable_items_snoc readable_pairs_dict_set distinct_dict_set)

lemma value_step_ok:
  assumes "frames_ok py st" and "numeral_token t" and "repr_stable py"
    and "value_step py st t = Inr (m, st')"
  shows "mode_ok py (length st') m \<and> frames_ok py st'"
proof (cases t)
  case (TInt s)
  with assms(4) have n: "\<not> too_long py (length (filter digit s))"
    and d: "deliver (JInt (int_of_text s)) st = (m, st')"
    by (auto split: if_splits)
  from TInt assms(2) have "match_number s = Some (TInt s, [])" by simp
  from too_long_mono [OF n int_numeral_digits [OF this]]
  have "readable py (length st) (JInt (int_of_text s))" by simp
  from deliver_ok [OF this assms(1) d] show ?thesis .
next
  case (TFloat s)
  with assms(4) have d: "deliver (JFloat (float_repr py s)) st = (m, st')" by simp
  from TFloat assms(2,3) have "float_fixed py (float_repr py s)"
    by (simp add: repr_stable_def)
  then have "readable py (length st) (JFloat (float_repr py s))" by simp
  from deliver_ok [OF this assms(1) d] show ?thesis .
next
  case TNaN
  with assms(4) have d: "deliver (JFloat (u ''NaN'')) st = (m, st')" by simp
  have "readable py (length st) (JFloat (u ''NaN''))" by (simp add: float_fixed_def)
  from deliver_ok [OF this assms(1) d] show ?thesis .
next
  case TInfinity
  with assms(4) have d: "deliver (JFloat (u ''Infinity'')) st = (m, st')" by simp
  have "readable py (length st) (JFloat (u ''Infinity''))" by (simp add: float_fixed_def)
  from deliver_ok [OF this assms(1) d] show ?thesis .
next
  case TNegInfinity
  with assms(4) have d: "deliver (JFloat (u ''-Infinity'')) st = (m, st')" by simp
  have "readable py (length st) (JFloat (u ''-Infinity''))" by (simp add: float_fixed_def)
  from deliver_ok [OF this assms(1) d] show ?thesis .
next
  case (TString s)
  with assms(4) have d: "deliver (JStr s) st = (m, st')" by simp
  have "readable py (length st) (JStr s)" by simp
  from deliver_ok [OF this assms(1) d] show ?thesis .
next
  case TTrue
  with assms(4) have d: "deliver (JBool True) st = (m, st')" by simp
  have "readable py (length st) (JBool True)" by simp
  from deliver_ok [OF this assms(1) d] show ?thesis .
next
  case TFalse
  with assms(4) have d: "deliver (JBool False) st = (m, st')" by simp
  have "readable py (length st) (JBool False)" by simp
  from deliver_ok [OF this assms(1) d] show ?thesis .
next
  case TNull
  with assms(4) have d: "deliver JNull st = (m, st')" by simp
  have "readable py (length st) JNull" by simp
  from deliver_ok [OF this assms(1) d] show ?thesis .
next
  case TLBrack
  with assms(1,4) show ?thesis by (auto split: if_splits)
next
  case TLBrace
  with assms(1,4) show ?thesis by (auto split: if_splits)
qed (use assms(4) in simp_all)

lemma step_ok:
  assumes m: "mode_ok py (length st) m" and f: "frames_ok py st" and t: "numeral_token t"
    and r: "repr_stable py" and s: "step py m st t = Inr (m', st')"
  shows "mode_ok py (length st') m' \<and> frames_ok py st'"
proof (cases m)
  case Value
  with s have "value_step py st t = Inr (m', st')" by simp
  from value_step_ok [OF f t r this] show ?thesis .
next
  case Elems0
  with m have d: "length st < decode_depth py" by simp
  show ?thesis
  proof (cases "t = TRBrack")
    case True
    with s Elems0 have "deliver (JArr []) st = (m', st')" by simp
    moreover from d have "readable py (length st) (JArr [])" by simp
    ultimately show ?thesis using f by (intro deliver_ok)
  next
    case False
    with s Elems0 have v: "value_step py (FArr [] # st) t = Inr (m', st')" by simp
    from d f have "frames_ok py (FArr [] # st)" by simp
    from value_step_ok [OF this t r v] show ?thesis .
  qed
next
  case (AfterElem vs)
  with m have d: "length st < decode_depth py" "readable_items py (Suc (length st)) vs"
    by simp_all
  show ?thesis
  proof (cases "t = TComma")
    case True
    with s AfterElem d f show ?thesis by auto
  next
    case False
    with s AfterElem have "deliver (JArr vs) st = (m', st')" by (auto split: if_splits)
    moreover from d have "readable py (length st) (JArr vs)" by simp
    ultimately show ?thesis using f by (intro deliver_ok)
  qed
next
  case Key0
  with m have d: "length st < decode_depth py" by simp
  show ?thesis
  proof (cases "t = TRBrace")
    case True
    with s Key0 have "deliver (JObj []) st = (m', st')" by simp
    moreover from d have "readable py (length st) (JObj [])" by simp
    ultimately show ?thesis using f by (intro deliver_ok)
  next
    case False
    with s Key0 d f show ?thesis by (cases t) auto
  qed
next
  case (KeyN kvs)
  with s m f show ?thesis by (cases t) auto
next
  case (Colon kvs k)
  with s m f show ?thesis by (auto split: if_splits)
next
  case (AfterPair kvs)
  with m have d: "length st < decode_depth py" "distinct (map fst kvs)"
    "readable_pairs py (Suc (length st)) kvs" by simp_all
  show ?thesis
  proof (cases "t = TComma")
    case True
    with s AfterPair d f show ?thesis by auto
  next
    case False
    with s AfterPair have "deliver (JObj kvs) st = (m', st')" by (auto split: if_splits)
    moreover from d have "readable py (length st) (JObj kvs)" by simp
    ultimately show ?thesis using f by (intro deliver_ok)
  qed
next
  case (End v)
  with s show ?thesis by simp
qed

lemma run_ok:
  "mode_ok py (length st) m \<Longrightarrow> frames_ok py st \<Longrightarrow> list_all numeral_token ts \<Longrightarrow>
   repr_stable py \<Longrightarrow> run py m st ts = Inr v \<Longrightarrow> readable py 0 v"
proof (induction ts arbitrary: m st)
  case Nil
  then show ?case by (cases m) auto
next
  case (Cons t ts)
  from Cons.prems(5) obtain m' st' where s: "step py m st t = Inr (m', st')"
    and r: "run py m' st' ts = Inr v"
    by (auto split: sum.splits)
  from Cons.prems(3) have t: "numeral_token t" and ts: "list_all numeral_token ts" by simp_all
  from step_ok [OF Cons.prems(1,2) t Cons.prems(4) s]
  have "mode_ok py (length st') m'" "frames_ok py st'" by simp_all
  from Cons.IH [OF this ts Cons.prems(4) r] show ?case .
qed

lemma json_loads_readable:
  assumes "repr_stable py" and "json_loads py s = Inr v"
  shows "readable py 0 v"
proof -
  from assms(2) have "run py Value [] (lex s) = Inr v" by (simp add: json_loads_def)
  with run_ok [of py "[]" Value "lex s" v] lex_numerals [of s] assms(1) show ?thesis by simp
qed

lemma try_extract_readable:
  assumes "repr_stable py" and "try_extract py reply = Inr v"
  shows "readable py 0 v"
proof -
  obtain cleaned where "code_block (strip reply) = Inr cleaned"
    using code_block_returns by blast
  with assms(2) have "json_loads py (json_text cleaned) = Inr v"
    by (simp add: try_extract_def bind_exn_def)
  with assms(1) show ?thesis by (rule json_loads_readable)
qed

lemma digits_of_small: "n < 10 \<Longrightarrow> digits_of n = [0x30 + n]"
  by (subst digits_of.simps) simp

lemma default_readable:
  "4 \<le> decode_depth py \<Longrightarrow> readable py 0 (fst (create_default_roadmap e c r w))"
  by (auto simp: create_default_roadmap_def now_isoformat_def default_rounds_def round_entry_def
      digits_of_small too_long_def)

lemma setitem_readable:
  "setitem r k (JStr s) = Inr r' \<Longrightarrow> readable py 0 r \<Longrightarrow> readable py 0 r'"
  by (cases r) (auto simp: readable_pairs_dict_set distinct_dict_set)

lemma stamp_readable:
  "stamp v company role now = Inr r \<Longrightarrow> readable py 0 v \<Longrightarrow> readable py 0 r"
  unfolding stamp_def
  by (auto simp: bind_exn_def split: sum.splits dest: setitem_readable)

subsection \<open>Where the records of generate_roadmap come from\<close>

lemma generate_roadmap_origin:
  assumes "fst (generate_roadmap e company role jd w) = Inr r"
  shows "r = fst (create_default_roadmap e company role w)
     \<or> (\<exists>v now. stamp v company role now = Inr r
          \<and> (v = fst (create_default_roadmap e (u ''Unknown'') (u ''Unknown'') w)
              \<or> (\<exists>reply. try_extract (python e) reply = Inr v)))"
proof -
  let ?w2 = "print [Lit (0x1F310 # u '' Gathering company information from DuckDuckGo...'')]
         (print [Lit (0x1F3AF # u '' Generating roadmap for '' @ role @ u '' at '' @ company
                           @ u ''...'')] w)"
  obtain s w3 where s: "search_company_info e company role ?w2 = (s, w3)"
    by (cases "search_company_info e company role ?w2") auto
  show ?thesis
  proof (cases s)
    case (Inl x)
    with s assms show ?thesis by (simp add: generate_roadmap_def Let_def)
  next
    case (Inr info)
    with s have "fst (search_company_info e company role ?w2) = Inr info" by simp
    note c = generate_roadmap_cases [OF this, of jd]
    show ?thesis
    proof (cases "llm e (prompt_text company role jd info)")
      case (Inl x)
      with c assms show ?thesis by (simp split: if_splits)
    next
      case (Inr reply)
      note reply = this
      show ?thesis
      proof (cases "try_extract (python e) reply")
        case (Inl x)
        with c reply assms show ?thesis by (auto split: if_splits)
      next
        case (Inr v)
        with c reply assms show ?thesis by auto
      qed
    qed
  qed
qed

lemma generate_roadmap_readable:
  assumes "fst (generate_roadmap e company role jd w) = Inr r"
    and "repr_stable (python e)" and "4 \<le> decode_depth (python e)"
  shows "readable (python e) 0 r"
proof -
  note d = default_readable [OF assms(3)]
  from generate_roadmap_origin [OF assms(1)]
  consider "r = fst (create_default_roadmap e company role w)"
    | now where "stamp (fst (create_default_roadmap e (u ''Unknown'') (u ''Unknown'') w))
        company role now = Inr r"
    | v now reply where "stamp v company role now = Inr r" "try_extract (python e) reply = Inr v"
    by blast
  then show ?thesis
  proof cases
    case 1
    with d show ?thesis by simp
  next
    case 2
    from stamp_readable [OF this d] show ?thesis .
  next
    case 3
    from stamp_readable [OF 3(1) try_extract_readable [OF assms(2) 3(2)]] show ?thesis .
  qed
qed

subsection \<open>What the encoder can write\<close>

text \<open>No integer in the value has more digits than the interpreter converts.\<close>

fun int_ok :: "interpreter \<Rightarrow> json \<Rightarrow> bool" where
  "int_ok py (JInt i) = (\<not> too_long py (length (digits_of (nat \<bar>i\<bar>))))"
| "int_ok py _ = True"

lemma readable_ints:
  "readable py d v \<longrightarrow> every (int_ok py) v"
  "readable_items py d vs \<longrightarrow> every_items (int_ok py) vs"
  "readable_pairs py d kvs \<longrightarrow> every_pairs (int_ok py) kvs"
  by (induction py d v and py d vs and py d kvs rule: readable_readable_items_readable_pairs.induct)
    simp_all

lemma encodable_append: "encodable (a @ b) = (encodable a \<and> encodable b)"
  by (simp add: encodable_def)

lemma dump_error_recursion:
  "(every (int_ok py) v \<longrightarrow> every clean v \<longrightarrow>
      dump_error py d v = None \<or> dump_error py d v = Some RecursionError)"
  "(every_items (int_ok py) vs \<longrightarrow> every_items clean vs \<longrightarrow>
      dump_error_items py d vs = None \<or> dump_error_items py d vs = Some RecursionError)"
  "(every_pairs (int_ok py) kvs \<longrightarrow> every_pairs clean kvs \<longrightarrow>
      encodable (concat (map fst kvs)) \<longrightarrow>
      dump_error_pairs py d kvs = None \<or> dump_error_pairs py d kvs = Some RecursionError)"
proof (induction py d v and py d vs and py d kvs
    rule: dump_error_dump_error_items_dump_error_pairs.induct)
  case (1 py d vs)
  then show ?case by simp
next
  case (2 py d kvs)
  then show ?case by simp
next
  case (3 py d)
  show ?case by (simp add: leaf_error_def)
next
  case (4 py d b)
  show ?case by (simp add: leaf_error_def)
next
  case (5 py d i)
  show ?case by (simp add: leaf_error_def)
next
  case (6 py d t)
  show ?case by (simp add: leaf_error_def)
next
  case (7 py d s)
  show ?case by (simp add: leaf_error_def)
next
  case (8 py d)
  show ?case by simp
next
  case (9 py d v vs)
  then show ?case by (auto split: option.splits)
next
  case (10 py d)
  show ?case by simp
next
  case (11 py d k v kvs)
  then show ?case
    by (auto simp: leaf_error_def encodable_append split: option.splits)
qed

lemma dump_error_none:
  assumes "readable py d' r" and "every clean r" and "dump_error py 0 r \<noteq> Some RecursionError"
  shows "dump_error py 0 r = None"
  using dump_error_recursion(1) [of py r 0] readable_ints(1) [of py d' r] assms by blast

subsection \<open>Saving a record and reading it back\<close>

text \<open>The sample interpreter formats floats as the theorem below wants it.\<close>

lemma sample_repr_stable: "repr_stable sample_python"
  unfolding repr_stable_def
proof (intro allI impI)
  fix s
  assume n: "float_numeral s"
  have r: "float_repr sample_python = sample_repr" by (simp add: sample_python_def)
  have a: "float_fixed sample_python (u ''1.5'')"
    and b: "float_fixed sample_python (u ''0.0'')"
    and c: "float_fixed sample_python (u ''100000.0'')"
    by (simp_all add: float_fixed_def float_numeral_def r sample_repr_def match_number_def
        match_int_def match_frac_def match_exp_def digit_def)
  have d: "float_fixed sample_python (u ''Infinity'')"
    and e: "float_fixed sample_python (u ''-Infinity'')"
    by (simp_all add: float_fixed_def)
  consider "s = u ''1.50''" | "s = u ''1e400''" | "s = u ''-1e400''" | "s = u ''1e-400''"
    | "s = u ''1E+5''"
    | "s \<noteq> u ''1.50''" "s \<noteq> u ''1e400''" "s \<noteq> u ''-1e400''" "s \<noteq> u ''1e-400''"
      "s \<noteq> u ''1E+5''"
    by blast
  then show "float_fixed sample_python (float_repr sample_python s)"
  proof cases
    case 6
    then have "sample_repr s = s" by (simp add: sample_repr_def)
    with n show ?thesis by (simp add: float_fixed_def r)
  qed (use a b c d e in \<open>simp_all add: r sample_repr_def\<close>)
qed

text \<open>
  C9, as amended.  For every record that \<open>generate_roadmap\<close> or
  \<open>create_default_roadmap\<close> produces and that holds no surrogate code point in its
  strings: on an interpreter whose float texts are read back as the same floats and that
  decodes four containers deep, when the encoder does not meet the recursion limit and
  the operating system stores the file, \<open>save_roadmap\<close> writes the file of the derived
  name to the end, and decoding the text of that file gives the record again.
\<close>

theorem saved_roadmap_reads_back:
  assumes "fst (generate_roadmap e company role jd w) = Inr r
           \<or> r = fst (create_default_roadmap e company role w)"
    and "every clean r"
    and "repr_stable (python e)" and "4 \<le> decode_depth (python e)"
    and "dump_error (python e) 0 r \<noteq> Some RecursionError"
    and "disk e (roadmap_filename e company' role') (json_dumps r) = Stored"
  shows "fst (save_roadmap e r company' role' w') = Inr (roadmap_filename e company' role')
     \<and> files (snd (save_roadmap e r company' role' w')) (roadmap_filename e company' role')
         = Some (Written (json_dumps r))
     \<and> json_loads (python e) (json_dumps r) = Inr r"
proof -
  from assms(1) have k: "readable (python e) 0 r"
    using generate_roadmap_readable [OF _ assms(3,4)] default_readable [OF assms(4)] by blast
  from dump_error_none [OF k assms(2,5)] have "dump_error (python e) 0 r = None" .
  with assms(6)
  have "fst (save_roadmap e r company' role' w') = Inr (roadmap_filename e company' role')"
    and "files (snd (save_roadmap e r company' role' w')) (roadmap_filename e company' role')
         = Some (Written (json_dumps r))"
    by (simp_all add: save_roadmap_def Let_def print_def)
  with json_loads_dumps [OF k] show ?thesis by simp
qed

text \<open>The definitions that evaluate \<open>save_roadmap\<close> on a given record.\<close>

lemmas dump_defs = save_roadmap_def roadmap_filename_def replace_char_def json_dumps_def
  leaf_error_def encodable_def too_long_def sample_disk_def utf8_length_def Let_def print_def

theorem saved_roadmap_reads_back_witness:
  "fst (generate_roadmap (sample_env (Inr float_reply)) (u ''Acme'') (u ''SDE'')
          (u ''Build things'') (sample_world []))
     = Inr (JObj [(u ''difficulty'', JStr (u ''Hard'')), (u ''weight'', JFloat (u ''1.5'')),
                  (u ''company'', JStr (u ''Acme'')), (u ''role'', JStr (u ''SDE'')),
                  (u ''generated_at'', JStr (u ''2024-05-01T10:00:00'')),
                  (u ''version'', JStr (u ''1.0''))])
   \<and> files (snd (save_roadmap (sample_env (Inr float_reply))
        (JObj [(u ''difficulty'', JStr (u ''Hard'')), (u ''weight'', JFloat (u ''1.5'')),
               (u ''company'', JStr (u ''Acme'')), (u ''role'', JStr (u ''SDE'')),
               (u ''generated_at'', JStr (u ''2024-05-01T10:00:00'')),
               (u ''version'', JStr (u ''1.0''))])
        (u ''Acme'') (u ''SDE'') (sample_world []))) (u ''acme_sde_roadmap.json'')
     = Some (Written (json_dumps
        (JObj [(u ''difficulty'', JStr (u ''Hard'')), (u ''weight'', JFloat (u ''1.5'')),
               (u ''company'', JStr (u ''Acme'')), (u ''role'', JStr (u ''SDE'')),
               (u ''generated_at'', JStr (u ''2024-05-01T10:00:00'')),
               (u ''version'', JStr (u ''1.0''))])))
   \<and> json_loads sample_python (json_dumps
        (JObj [(u ''difficulty'', JStr (u ''Hard'')), (u ''weight'', JFloat (u ''1.5'')),
               (u ''company'', JStr (u ''Acme'')), (u ''role'', JStr (u ''SDE'')),
               (u ''generated_at'', JStr (u ''2024-05-01T10:00:00'')),
               (u ''version'', JStr (u ''1.0''))]))
     = Inr (JObj [(u ''difficulty'', JStr (u ''Hard'')), (u ''weight'', JFloat (u ''1.5'')),
               (u ''company'', JStr (u ''Acme'')), (u ''role'', JStr (u ''SDE'')),
               (u ''generated_at'', JStr (u ''2024-05-01T10:00:00'')),
               (u ''version'', JStr (u ''1.0''))])"
proof -
  let ?e = "sample_env (Inr float_reply)"
  let ?r = "JObj [(u ''difficulty'', JStr (u ''Hard'')), (u ''weight'', JFloat (u ''1.5'')),
               (u ''company'', JStr (u ''Acme'')), (u ''role'', JStr (u ''SDE'')),
               (u ''generated_at'', JStr (u ''2024-05-01T10:00:00'')),
               (u ''version'', JStr (u ''1.0''))]"
  let ?w2 = "print [Lit (0x1F310 # u '' Gathering company information from DuckDuckGo...'')]
         (print [Lit (0x1F3AF # u '' Generating roadmap for '' @ u ''SDE'' @ u '' at '' @ u ''Acme''
                           @ u ''...'')] (sample_world []))"
  have p: "python ?e = sample_python" by (simp add: sample_env_def)
  have "\<And>q y. ddg ?e q = Inl y \<Longrightarrow> is_Exception y"
    by (simp add: sample_env_def is_Exception_def)
  then obtain info where "fst (search_company_info ?e (u ''Acme'') (u ''SDE'') ?w2) = Inr info"
    using search_company_info_Inr [of ?e] by blast
  from generate_roadmap_cases [OF this, of "u ''Build things''"]
  have g: "fst (generate_roadmap ?e (u ''Acme'') (u ''SDE'') (u ''Build things'') (sample_world []))
     = Inr ?r"
    by (simp add: run_defs float_reply_def sample_repr_def)
  have c: "every clean ?r" by (simp add: encodable_def)
  have s: "repr_stable (python ?e)" unfolding p by (rule sample_repr_stable)
  have d: "4 \<le> decode_depth (python ?e)" by (simp add: p sample_python_def)
  have x: "dump_error (python ?e) 0 ?r \<noteq> Some RecursionError"
    by (simp add: p sample_python_def leaf_error_def encodable_def)
  have n: "roadmap_filename ?e (u ''Acme'') (u ''SDE'') = u ''acme_sde_roadmap.json''"
    by (simp add: roadmap_filename_def replace_char_def sample_env_def)
  have o: "disk ?e (roadmap_filename ?e (u ''Acme'') (u ''SDE'')) (json_dumps ?r) = Stored"
    unfolding n by (simp add: sample_env_def sample_disk_def utf8_length_def)
  from saved_roadmap_reads_back [where e = ?e and company' = "u ''Acme''" and role' = "u ''SDE''"
      and w' = "sample_world []", OF disjI1 [OF g] c s d x o] g n p
  show ?thesis by simp
qed

lemma utf8_length_append: "utf8_length (a @ b) = utf8_length a + utf8_length b"
  by (simp add: utf8_length_def)

lemma utf8_length_letters: "utf8_length (replicate n 0x61) = n"
  by (simp add: utf8_length_def sum_list_replicate)

text \<open>
  C9 as stated fails for a record with a lone surrogate, which the decoder accepts from
  an escape in the reply: the UTF-8 codec refuses the text and \<open>save_roadmap\<close> raises,
  leaving a file that was not written to the end.  It fails as well for a company name
  of 300 letters: \<open>open\<close> refuses the derived file name and nothing is written.
\<close>

theorem saved_roadmap_reads_back_counterexample:
  "fst (generate_roadmap (sample_env (Inr surrogate_reply)) (u ''Acme'') (u ''SDE'')
          (u ''Build things'') (sample_world []))
     = Inr (JObj [(u ''a'', JStr [0xD800]), (u ''company'', JStr (u ''Acme'')),
                  (u ''role'', JStr (u ''SDE'')),
                  (u ''generated_at'', JStr (u ''2024-05-01T10:00:00'')),
                  (u ''version'', JStr (u ''1.0''))])
   \<and> save_roadmap (sample_env (Inr surrogate_reply))
        (JObj [(u ''a'', JStr [0xD800]), (u ''company'', JStr (u ''Acme'')),
               (u ''role'', JStr (u ''SDE'')),
               (u ''generated_at'', JStr (u ''2024-05-01T10:00:00'')),
               (u ''version'', JStr (u ''1.0''))])
        (u ''Acme'') (u ''SDE'') (sample_world [])
     = (Inl UnicodeEncodeError,
        (sample_world [])\<lparr>files := (files (sample_world []))
           (u ''acme_sde_roadmap.json'' := Some Broken)\<rparr>)
   \<and> save_roadmap (sample_env (Inl LLMError))
        (fst (create_default_roadmap (sample_env (Inl LLMError)) (replicate 300 0x61) (u ''SDE'')
                (sample_world [])))
        (replicate 300 0x61) (u ''SDE'') (sample_world [])
     = (Inl OSError, sample_world [])"
proof -
  let ?e = "sample_env (Inr surrogate_reply)"
  let ?w2 = "print [Lit (0x1F310 # u '' Gathering company information from DuckDuckGo...'')]
         (print [Lit (0x1F3AF # u '' Generating roadmap for '' @ u ''SDE'' @ u '' at '' @ u ''Acme''
                           @ u ''...'')] (sample_world []))"
  have "\<And>q y. ddg ?e q = Inl y \<Longrightarrow> is_Exception y"
    by (simp add: sample_env_def is_Exception_def)
  then obtain info where "fst (search_company_info ?e (u ''Acme'') (u ''SDE'') ?w2) = Inr info"
    using search_company_info_Inr [of ?e] by blast
  from generate_roadmap_cases [OF this, of "u ''Build things''"]
  have g: "fst (generate_roadmap ?e (u ''Acme'') (u ''SDE'') (u ''Build things'') (sample_world []))
     = Inr (JObj [(u ''a'', JStr [0xD800]), (u ''company'', JStr (u ''Acme'')),
                  (u ''role'', JStr (u ''SDE'')),
                  (u ''generated_at'', JStr (u ''2024-05-01T10:00:00'')),
                  (u ''version'', JStr (u ''1.0''))])"
    by (simp add: run_defs surrogate_reply_def hex_val_def high_surrogate_def)
  have s: "save_roadmap ?e
        (JObj [(u ''a'', JStr [0xD800]), (u ''company'', JStr (u ''Acme'')),
               (u ''role'', JStr (u ''SDE'')),
               (u ''generated_at'', JStr (u ''2024-05-01T10:00:00'')),
               (u ''version'', JStr (u ''1.0''))])
        (u ''Acme'') (u ''SDE'') (sample_world [])
     = (Inl UnicodeEncodeError,
        (sample_world [])\<lparr>files := (files (sample_world []))
           (u ''acme_sde_roadmap.json'' := Some Broken)\<rparr>)"
    by (simp add: dump_defs sample_env_def sample_python_def)
  let ?d = "sample_env (Inl LLMError)"
  have n: "roadmap_filename ?d (replicate 300 0x61) (u ''SDE'')
      = replicate 300 0x61 @ u ''_sde_roadmap.json''"
    by (simp add: roadmap_filename_def replace_char_def sample_env_def)
  have "disk ?d (roadmap_filename ?d (replicate 300 0x61) (u ''SDE'')) content = OpenFails OSError"
    for content
    unfolding n
    by (simp add: sample_env_def sample_disk_def utf8_length_append utf8_length_letters)
  then have o: "save_roadmap ?d r (replicate 300 0x61) (u ''SDE'') (sample_world [])
      = (Inl OSError, sample_world [])" for r
    by (simp add: save_roadmap_def Let_def)
  from g s o show ?thesis by blast
qed

end
